theory Spec2Isabelle
  imports Complex_Main
begin

section \<open>The vertical-profile feature pipeline of ptype-physical\<close>

text \<open>
  This theory embeds the three stages of \<^verbatim>\<open>src/ptype/inference.py\<close>:
  \<^verbatim>\<open>df_flatten\<close> (Profile Flattener), \<^verbatim>\<open>convert_and_interpolate\<close> with
  \<^verbatim>\<open>interpolate\<close> (Vertical Interpolator) and \<^verbatim>\<open>grid_predictions\<close>
  (Grid Reconstructor), together with the numpy, pandas and xarray operations they call.

  Conventions of the embedding:
  \<^item> float64 values are exact reals: IEEE rounding and NaN are not modelled;
  \<^item> a one-dimensional array is a list, a two-dimensional array the list of its rows;
  \<^item> every Python exception is a value \<open>Inl e\<close> of the result type.
\<close>

subsection \<open>Exceptions\<close>

text \<open>
  The exceptions of Python that the code can raise, and \<open>Unspecified\<close> for the inputs on
  which the loop that numba compiles has no specified outcome.
\<close>

datatype py_error = ValueError | KeyError | IndexError | ZeroDivisionError | Unspecified

subsection \<open>Target height levels: \<^verbatim>\<open>np.arange\<close>\<close>

text \<open>
  \<^verbatim>\<open>np.arange(start, stop, step)\<close> on Python integers has
  \<open>\<lceil>(stop - start) / step\<rceil>\<close> elements (none when that is negative), the
  \<open>k\<close>-th being \<open>start + k * step\<close>; a zero step raises.
\<close>

definition np_arange :: "int \<Rightarrow> int \<Rightarrow> int \<Rightarrow> py_error + int list" where
  "np_arange start stop step =
     (if step = 0 then Inl ZeroDivisionError
      else Inr (map (\<lambda>k. start + int k * step)
                    [0 ..< nat (- ((start - stop) div step))]))"

text \<open>The \<^verbatim>\<open>height_levels\<close> dictionary of the configuration.\<close>

record height_conf =
  low :: int
  high :: int
  interval :: int

text \<open>
  \<^verbatim>\<open>
  height_levels = np.arange(start=height_levels["low"],
                            stop=height_levels["high"] + height_levels["interval"],
                            step=height_levels["interval"])
  \<close>
\<close>

definition height_level_seq :: "height_conf \<Rightarrow> py_error + int list" where
  "height_level_seq c = np_arange (low c) (high c + interval c) (interval c)"

subsection \<open>One-dimensional interpolation: \<^verbatim>\<open>np.interp\<close>\<close>

text \<open>
  The bisection that ends the interval search:
  \<^verbatim>\<open>
  while imin < imax:
      imid = imin + ((imax - imin) >> 1)
      if key >= arr[imid]: imin = imid + 1
      else: imax = imid
  \<close>
\<close>

function bisect :: "real \<Rightarrow> real list \<Rightarrow> nat \<Rightarrow> nat \<Rightarrow> nat" where
  "bisect key arr imin imax =
     (if imin < imax
      then (if key \<ge> arr ! (imin + (imax - imin) div 2)
            then bisect key arr (imin + (imax - imin) div 2 + 1) imax
            else bisect key arr imin (imin + (imax - imin) div 2))
      else imin)"
  by pat_completeness auto
termination
  by (relation "measure (\<lambda>(key, arr, imin, imax). imax - imin)") auto

declare bisect.simps [simp del]

text \<open>
  The interval search of \<^verbatim>\<open>np.interp\<close>, started from the index found for the previous
  target: \<open>length arr\<close> when the key lies right of the last sample, \<open>-1\<close> when it lies
  left of the first one; on up to four samples a scan from the left for the first \<open>i \<ge> 1\<close>
  with \<open>key < arr[i]\<close>; otherwise the guess is brought into \<open>[1, len - 3]\<close>, the three
  intervals around it are tried, and the bisection runs on what remains, cut to eight
  samples next to the guess when the key lies there.
\<close>

definition binary_search_with_guess :: "real \<Rightarrow> real list \<Rightarrow> int \<Rightarrow> int" where
  "binary_search_with_guess key arr guess0 =
     (let len = length arr in
      if key > arr ! (len - 1) then int len
      else if key < arr ! 0 then - 1
      else if len \<le> 4 then int (length (takeWhile (\<lambda>a. key \<ge> a) (tl arr)))
      else
        (let guess = nat (max 1 (min guess0 (int len - 3))) in
         if key < arr ! guess then
           (if key < arr ! (guess - 1)
            then int (bisect key arr
                        (if guess > 8 \<and> key \<ge> arr ! (guess - 8) then guess - 8 else 0)
                        (guess - 1)) - 1
            else int guess - 1)
         else if key < arr ! (guess + 1) then int guess
         else if key < arr ! (guess + 2) then int guess + 1
         else int (bisect key arr (guess + 2)
                     (if guess + 9 < len \<and> key < arr ! (guess + 8) then guess + 8 else len)) - 1))"

text \<open>The value for one target, from the index \<open>j\<close> that the search returned.\<close>

definition interp_value :: "real list \<Rightarrow> real list \<Rightarrow> real \<Rightarrow> int \<Rightarrow> real" where
  "interp_value dx dy x_val j =
     (let lenxp = int (length dx) in
      if j = - 1 then dy ! 0
      else if j = lenxp then dy ! (length dx - 1)
      else if j = lenxp - 1 then dy ! nat j
      else (dy ! (nat j + 1) - dy ! nat j) / (dx ! (nat j + 1) - dx ! nat j)
             * (x_val - dx ! nat j) + dy ! nat j)"

text \<open>The loop over the targets; each search starts from the index of the one before.\<close>

fun interp_loop :: "real list \<Rightarrow> real list \<Rightarrow> int \<Rightarrow> real list \<Rightarrow> real list" where
  "interp_loop dx dy j [] = []"
| "interp_loop dx dy j (x_val # x) =
     interp_value dx dy x_val (binary_search_with_guess x_val dx j)
       # interp_loop dx dy (binary_search_with_guess x_val dx j) x"

definition np_interp :: "real list \<Rightarrow> real list \<Rightarrow> real list \<Rightarrow> py_error + real list" where
  "np_interp x xp fp =
     (if length xp = 0 then Inl ValueError
      else if length xp \<noteq> length fp then Inl ValueError
      else if length xp = 1 then Inr (map (\<lambda>_. fp ! 0) x)
      else Inr (interp_loop xp fp 0 x))"

subsection \<open>\<^verbatim>\<open>interpolate\<close>: one profile per row\<close>

text \<open>
  \<^verbatim>\<open>
  arr = np.zeros(shape=(x.shape[0], len(height_levels)))
  for i in numba.prange(arr.shape[0]):
      arr[i] = np.interp(x=height_levels, xp=x[i], fp=y[i])
  return arr
  \<close>
  The loop runs over the rows of \<open>x\<close>. The function is compiled by numba without bounds
  checks and in parallel: a missing row of \<open>y\<close>, or a profile on which \<^verbatim>\<open>np.interp\<close>
  raises, has no specified outcome there, which the model records as \<open>Unspecified\<close>.
\<close>

fun interpolate :: "real list list \<Rightarrow> real list list \<Rightarrow> real list \<Rightarrow> py_error + real list list" where
  "interpolate [] y height_levels = Inr []"
| "interpolate (xi # x) [] height_levels = Inl Unspecified"
| "interpolate (xi # x) (yi # y) height_levels =
     (case np_interp height_levels xi yi of
        Inl e \<Rightarrow> Inl Unspecified
      | Inr row \<Rightarrow>
          (case interpolate x y height_levels of
             Inl e \<Rightarrow> Inl e
           | Inr rest \<Rightarrow> Inr (row # rest)))"

subsection \<open>Column names\<close>

text \<open>
  \<^verbatim>\<open>f"{v}_{int(p)}"\<close>: Python's \<^verbatim>\<open>int\<close> truncates a float towards zero and the
  format prints the integer in decimal.
\<close>

definition py_int :: "real \<Rightarrow> int" where
  "py_int x = (if 0 \<le> x then \<lfloor>x\<rfloor> else \<lceil>x\<rceil>)"

fun digits10 :: "nat \<Rightarrow> string" where
  "digits10 n =
     (if n < 10 then [''0123456789'' ! n]
      else digits10 (n div 10) @ [''0123456789'' ! (n mod 10)])"

definition str_int :: "int \<Rightarrow> string" where
  "str_int i = (if i < 0 then CHR ''-'' # digits10 (nat (- i)) else digits10 (nat i))"

definition col_name :: "string \<Rightarrow> real \<Rightarrow> string" where
  "col_name v p = v @ ''_'' @ str_int (py_int p)"

subsection \<open>Tables: \<^verbatim>\<open>pd.DataFrame\<close>\<close>

text \<open>
  A DataFrame is its number of rows and its named columns in order (pandas allows
  duplicate column names). It is well formed when every column has one value per row.
\<close>

record dataframe =
  nrows :: nat
  columns :: "(string \<times> real list) list"

definition wf_dataframe :: "dataframe \<Rightarrow> bool" where
  "wf_dataframe df = list_all (\<lambda>c. length (snd c) = nrows df) (columns df)"

text \<open>
  \<^verbatim>\<open>data[names]\<close> with a list of names: the columns with these names in the order of
  the list (every column of that name when a name is duplicated); \<^verbatim>\<open>KeyError\<close> when a
  name is not a column.
\<close>

fun getitem_cols :: "(string \<times> real list) list \<Rightarrow> string list \<Rightarrow> py_error + real list list" where
  "getitem_cols cs [] = Inr []"
| "getitem_cols cs (n # ns) =
     (case filter (\<lambda>c. fst c = n) cs of
        [] \<Rightarrow> Inl KeyError
      | m # ms \<Rightarrow>
          (case getitem_cols cs ns of
             Inl e \<Rightarrow> Inl e
           | Inr r \<Rightarrow> Inr (map snd (m # ms) @ r)))"

text \<open>\<^verbatim>\<open>.values\<close>: the selected columns as a two-dimensional array, one row per point.\<close>

definition values2d :: "nat \<Rightarrow> real list list \<Rightarrow> real list list" where
  "values2d n cols = map (\<lambda>i. map (\<lambda>c. c ! i) cols) [0 ..< n]"

subsection \<open>Array operations of numpy\<close>

text \<open>
  \<^verbatim>\<open>arr[:, 0] = v\<close> on an array with \<open>ncols\<close> columns: index 0 must exist, and the
  one-dimensional \<open>v\<close> must have one value per row or a single value, which is broadcast.
\<close>

definition setitem_col0 :: "nat \<Rightarrow> real list list \<Rightarrow> real list \<Rightarrow> py_error + real list list" where
  "setitem_col0 ncols arr v =
     (if ncols = 0 then Inl IndexError
      else if length v = length arr then Inr (map2 (\<lambda>row s. row[0 := s]) arr v)
      else if length v = 1 then Inr (map (\<lambda>row. row[0 := v ! 0]) arr)
      else Inl ValueError)"

text \<open>
  \<^verbatim>\<open>np.concatenate(arrays, axis=1)\<close>: the arrays must be at least one and agree in their
  number of rows; row \<open>i\<close> of the result is the rows \<open>i\<close> of the arrays one after another.
\<close>

definition concatenate_axis1 :: "real list list list \<Rightarrow> py_error + real list list" where
  "concatenate_axis1 arrays =
     (case arrays of
        [] \<Rightarrow> Inl ValueError
      | a # as \<Rightarrow>
          if list_all (\<lambda>b. length b = length a) as
          then Inr (map (\<lambda>i. concat (map (\<lambda>b. b ! i) arrays)) [0 ..< length a])
          else Inl ValueError)"

subsection \<open>\<^verbatim>\<open>convert_and_interpolate\<close>\<close>

text \<open>
  One pass of the loop over \<^verbatim>\<open>zip(variables, surface_variables)\<close>:
  \<^verbatim>\<open>
  pressure_level_data = data[cols[v]].values
  height_interp_data = interpolate(height_data, pressure_level_data, height_levels)
  height_interp_data[:, 0] = surface_data[sv]
  \<close>
  with \<^verbatim>\<open>cols[v] = [f"{v}_{int(x)}" for x in pressure_levels]\<close>. The surface data is a
  dictionary from variable names to one-dimensional arrays.
\<close>

definition var_block ::
  "dataframe \<Rightarrow> (string \<rightharpoonup> real list) \<Rightarrow> real list \<Rightarrow> real list list \<Rightarrow> real list
     \<Rightarrow> string \<times> string \<Rightarrow> py_error + real list list" where
  "var_block data surface_data pressure_levels height_data height_levels vsv =
     (case getitem_cols (columns data) (map (col_name (fst vsv)) pressure_levels) of
        Inl e \<Rightarrow> Inl e
      | Inr cs \<Rightarrow>
          (case interpolate height_data (values2d (nrows data) cs) height_levels of
             Inl e \<Rightarrow> Inl e
           | Inr height_interp_data \<Rightarrow>
               (case surface_data (snd vsv) of
                  None \<Rightarrow> Inl KeyError
                | Some s \<Rightarrow> setitem_col0 (length height_levels) height_interp_data s)))"

fun var_arrays_loop ::
  "dataframe \<Rightarrow> (string \<rightharpoonup> real list) \<Rightarrow> real list \<Rightarrow> real list list \<Rightarrow> real list
     \<Rightarrow> (string \<times> string) list \<Rightarrow> py_error + real list list list" where
  "var_arrays_loop data surface_data pressure_levels height_data height_levels [] = Inr []"
| "var_arrays_loop data surface_data pressure_levels height_data height_levels (vsv # rest) =
     (case var_block data surface_data pressure_levels height_data height_levels vsv of
        Inl e \<Rightarrow> Inl e
      | Inr b \<Rightarrow>
          (case var_arrays_loop data surface_data pressure_levels height_data height_levels rest of
             Inl e \<Rightarrow> Inl e
           | Inr bs \<Rightarrow> Inr (b # bs)))"

definition variables :: "string list" where
  "variables = [''t'', ''dpt'', ''u'', ''v'']"

definition surface_variables :: "string list" where
  "surface_variables = [''t2m'', ''d2m'', ''u10'', ''v10'']"

definition convert_and_interpolate ::
  "dataframe \<Rightarrow> (string \<rightharpoonup> real list) \<Rightarrow> real list \<Rightarrow> height_conf \<Rightarrow> py_error + real list list" where
  "convert_and_interpolate data surface_data pressure_levels height_levels =
     (case height_level_seq height_levels of
        Inl e \<Rightarrow> Inl e
      | Inr hl \<Rightarrow>
          (case getitem_cols (columns data) (map (col_name ''hgt_above_sfc'') pressure_levels) of
             Inl e \<Rightarrow> Inl e
           | Inr hc \<Rightarrow>
               (case var_arrays_loop data surface_data pressure_levels
                       (values2d (nrows data) hc) (map real_of_int hl)
                       (zip variables surface_variables) of
                  Inl e \<Rightarrow> Inl e
                | Inr var_arrays \<Rightarrow> concatenate_axis1 var_arrays)))"

subsection \<open>Labeled fields: \<^verbatim>\<open>xr.Dataset\<close>\<close>

text \<open>
  A dataset has the dimensions \<open>y\<close> and \<open>x\<close>, data variables that are either one grid over
  \<open>(y, x)\<close> or one such grid per value of the coordinate \<open>isobaricInhPa\<close>, and named
  coordinates. The element type of an array is kept as a tag.
\<close>

datatype dtype = Float64 | Float32 | UInt8

text \<open>
  \<^verbatim>\<open>astype\<close> changes the values as well: a float64 is rounded to a float32, a float is
  truncated to a uint8. The two conversions are numpy's; the model takes them as parameters.
\<close>

record numpy_casts =
  to_float32 :: "real \<Rightarrow> real"
  to_uint8 :: "real \<Rightarrow> real"

datatype ndvalues = Grid2 "real list list" | Grid3 "real list list list"

fun map_values :: "(real \<Rightarrow> real) \<Rightarrow> ndvalues \<Rightarrow> ndvalues" where
  "map_values f (Grid2 g) = Grid2 (map (map f) g)"
| "map_values f (Grid3 gs) = Grid3 (map (map (map f)) gs)"

record variable =
  dtype :: dtype
  vals :: ndvalues
  attrs :: "(string \<times> string) list"

record coord =
  cdtype :: dtype
  cvals :: "real list"

record dataset =
  dim_y :: nat
  dim_x :: nat
  data_vars :: "string \<rightharpoonup> variable"
  coords :: "(string \<times> coord) list"

subsection \<open>\<^verbatim>\<open>df_flatten\<close>\<close>

text \<open>
  \<^verbatim>\<open>ds[v].sel(isobaricInhPa=p)\<close>: the grids of the variable at the positions where the
  level coordinate equals \<open>p\<close> (exactly one when the levels are distinct).
\<close>

definition sel_level :: "real list \<Rightarrow> real list list list \<Rightarrow> real \<Rightarrow> real list list list" where
  "sel_level lv grids p = map snd (filter (\<lambda>qg. fst qg = p) (zip lv grids))"

text \<open>Row-major flattening of a two-dimensional array.\<close>

definition ravel :: "'a list list \<Rightarrow> 'a list" where
  "ravel g = concat g"

text \<open>\<^verbatim>\<open>.values.reshape(-1, 1)\<close>: all selected values, row-major, as one column.\<close>

definition reshape_column :: "real list list list \<Rightarrow> real list list" where
  "reshape_column sel = map (\<lambda>a. [a]) (concat (map ravel sel))"

text \<open>
  The inner loop \<^verbatim>\<open>for p in ds[vertical_level_name].values\<close> for one variable \<open>v\<close>,
  over the remaining levels \<open>ps\<close>; it yields the names and the column arrays it appends.
  The function is only called with the default level name, which \<^verbatim>\<open>sel\<close> hard-codes.
\<close>

fun flatten_levels ::
  "dataset \<Rightarrow> string \<Rightarrow> real list \<Rightarrow> real list \<Rightarrow> py_error + (string \<times> real list list) list" where
  "flatten_levels ds v lv [] = Inr []"
| "flatten_levels ds v lv (p # ps) =
     (case data_vars ds v of
        None \<Rightarrow> Inl KeyError
      | Some var \<Rightarrow>
          (case vals var of
             Grid2 g \<Rightarrow> Inl KeyError
           | Grid3 grids \<Rightarrow>
               (case flatten_levels ds v lv ps of
                  Inl e \<Rightarrow> Inl e
                | Inr r \<Rightarrow> Inr ((col_name v p, reshape_column (sel_level lv grids p)) # r))))"

fun flatten_vars :: "dataset \<Rightarrow> string list \<Rightarrow> py_error + (string \<times> real list list) list" where
  "flatten_vars ds [] = Inr []"
| "flatten_vars ds (v # vs) =
     (case map_of (coords ds) ''isobaricInhPa'' of
        None \<Rightarrow> Inl KeyError
      | Some lv \<Rightarrow>
          (case flatten_levels ds v (cvals lv) (cvals lv) of
             Inl e \<Rightarrow> Inl e
           | Inr cs \<Rightarrow>
               (case flatten_vars ds vs of
                  Inl e \<Rightarrow> Inl e
                | Inr r \<Rightarrow> Inr (cs @ r))))"

text \<open>
  \<^verbatim>\<open>
  flat_data = np.concatenate(pressure_lev_data, axis=1)
  return pd.DataFrame(flat_data, columns=cols)
  \<close>
\<close>

definition df_flatten :: "dataset \<Rightarrow> string list \<Rightarrow> py_error + dataframe" where
  "df_flatten ds varsP =
     (case flatten_vars ds varsP of
        Inl e \<Rightarrow> Inl e
      | Inr named \<Rightarrow>
          (case concatenate_axis1 (map snd named) of
             Inl e \<Rightarrow> Inl e
           | Inr flat_data \<Rightarrow>
               Inr \<lparr>nrows = length flat_data,
                    columns = map (\<lambda>j. (fst (named ! j), map (\<lambda>row. row ! j) flat_data))
                                  [0 ..< length named]\<rparr>))"

subsection \<open>\<^verbatim>\<open>grid_predictions\<close>\<close>

text \<open>
  The prediction table is a two-dimensional array: its number of columns and its rows.
\<close>

record table =
  n_cols :: nat
  t_rows :: "real list list"

definition wf_table :: "table \<Rightarrow> bool" where
  "wf_table t = list_all (\<lambda>r. length r = n_cols t) (t_rows t)"

text \<open>
  \<^verbatim>\<open>argmax\<close> of one row: scan from the left, keep the index of the first element that
  is greater than everything before it.
\<close>

fun argmax_scan :: "real \<Rightarrow> nat \<Rightarrow> nat \<Rightarrow> real list \<Rightarrow> nat" where
  "argmax_scan mp idx i [] = idx"
| "argmax_scan mp idx i (v # vs) =
     (if v > mp then argmax_scan v i (Suc i) vs else argmax_scan mp idx (Suc i) vs)"

definition np_argmax :: "real list \<Rightarrow> nat" where
  "np_argmax xs = (case xs of [] \<Rightarrow> 0 | v # vs \<Rightarrow> argmax_scan v 0 1 vs)"

text \<open>\<^verbatim>\<open>preds.argmax(axis=1)\<close>: numpy refuses an empty axis.\<close>

definition argmax_axis1 :: "table \<Rightarrow> py_error + nat list" where
  "argmax_axis1 preds =
     (if n_cols preds = 0 then Inl ValueError else Inr (map np_argmax (t_rows preds)))"

text \<open>\<^verbatim>\<open>np.hstack([preds, ptype])\<close> with \<open>ptype\<close> a column: the class index joins each row.\<close>

definition hstack_ptype :: "real list list \<Rightarrow> nat list \<Rightarrow> real list list" where
  "hstack_ptype rows ptype = map2 (\<lambda>r k. r @ [real k]) rows ptype"

text \<open>
  \<^verbatim>\<open>preds.reshape(R, C, k)\<close> of an array of shape \<open>(n, k)\<close>: the sizes must agree, and
  row-major order puts row \<open>r * C + c\<close> of the table at position \<open>(r, c)\<close>.
\<close>

definition reshape3 :: "nat \<Rightarrow> nat \<Rightarrow> nat \<Rightarrow> 'a list \<Rightarrow> py_error + 'a list list" where
  "reshape3 R C k rows =
     (if length rows * k = R * C * k
      then Inr (map (\<lambda>r. take C (drop (r * C) rows)) [0 ..< R])
      else Inl ValueError)"

text \<open>\<^verbatim>\<open>reshaped_preds[:, :, i]\<close> on a last axis of size \<open>k\<close>.\<close>

definition channel :: "nat \<Rightarrow> real list list list \<Rightarrow> nat \<Rightarrow> py_error + real list list" where
  "channel k reshaped i =
     (if i < k then Inr (map (map (\<lambda>p. p ! i)) reshaped) else Inl IndexError)"

text \<open>\<^verbatim>\<open>np.where(reshaped_preds[:, :, -1] == i, 1, 0)\<close>.\<close>

definition categorical :: "real list list list \<Rightarrow> nat \<Rightarrow> real list list" where
  "categorical reshaped i = map (map (\<lambda>p. if last p = real i then 1 else 0)) reshaped"

text \<open>
  One pass of the loop over the four precipitation types: it stores two variables in the
  dataset it was given.
\<close>

definition assign_ml ::
  "numpy_casts \<Rightarrow> nat \<Rightarrow> real list list list \<Rightarrow> dataset \<Rightarrow> nat \<times> string \<times> string
     \<Rightarrow> py_error + dataset" where
  "assign_ml nc k reshaped data ilv =
     (case ilv of (i, long_v, v) \<Rightarrow>
        (case channel k reshaped i of
           Inl e \<Rightarrow> Inl e
         | Inr prob \<Rightarrow>
             Inr (data\<lparr>data_vars := (data_vars data)
                    (''ML_'' @ v \<mapsto>
                       \<lparr>dtype = Float32, vals = Grid2 (map (map (to_float32 nc)) prob),
                        attrs = [(''Description'', ''Machine Learned Probability of '' @ long_v)]\<rparr>,
                     ''ML_c'' @ v \<mapsto>
                       \<lparr>dtype = UInt8, vals = Grid2 (categorical reshaped i),
                        attrs = [(''Description'', ''Machine Learned Categorical '' @ long_v)]\<rparr>)\<rparr>)))"

fun ml_loop ::
  "numpy_casts \<Rightarrow> nat \<Rightarrow> real list list list \<Rightarrow> dataset \<Rightarrow> (nat \<times> string \<times> string) list
     \<Rightarrow> py_error + dataset" where
  "ml_loop nc k reshaped data [] = Inr data"
| "ml_loop nc k reshaped data (ilv # rest) =
     (case assign_ml nc k reshaped data ilv of
        Inl e \<Rightarrow> Inl e
      | Inr data' \<Rightarrow> ml_loop nc k reshaped data' rest)"

definition ptypes :: "(nat \<times> string \<times> string) list" where
  "ptypes = [(0, ''rain'', ''rain''), (1, ''snow'', ''snow''),
             (2, ''ice pellets'', ''icep''), (3, ''freezing rain'', ''frzr'')]"

text \<open>
  \<^verbatim>\<open>
  for var in ["crain", "csnow", "cicep", "cfrzr"]:
      if var in list(data.data_vars):
          data[var] = data[var].astype('uint8')
  \<close>
\<close>

definition cast_uint8 :: "numpy_casts \<Rightarrow> dataset \<Rightarrow> string \<Rightarrow> dataset" where
  "cast_uint8 nc data var =
     (case data_vars data var of
        None \<Rightarrow> data
      | Some x \<Rightarrow>
          data\<lparr>data_vars := (data_vars data)
                 (var \<mapsto> x\<lparr>dtype := UInt8, vals := map_values (to_uint8 nc) (vals x)\<rparr>)\<rparr>)"

text \<open>
  \<^verbatim>\<open>
  for v in data.coords:
      if data[v].dtype == 'float64':
          data[v] = data[v].astype('float32')
  \<close>
\<close>

definition cast_coords :: "numpy_casts \<Rightarrow> dataset \<Rightarrow> dataset" where
  "cast_coords nc data =
     data\<lparr>coords := map (\<lambda>v. (fst v, if cdtype (snd v) = Float64
                                     then \<lparr>cdtype = Float32, cvals = map (to_float32 nc) (cvals (snd v))\<rparr>
                                     else snd v))
                         (coords data)\<rparr>"

text \<open>
  \<^verbatim>\<open>data.drop(drop_vars)\<close> builds a new dataset without the level coordinates that are
  present.
\<close>

definition drop_levels :: "dataset \<Rightarrow> dataset" where
  "drop_levels data =
     data\<lparr>coords := filter (\<lambda>nc. fst nc \<notin> set [''isobaricInhPa'', ''heightAboveGround'', ''surface''])
                            (coords data)\<rparr>"

text \<open>
  The result is a pair: the dataset object the caller passed in, as the function leaves
  it, and the new dataset the function returns. An exception is raised before or during
  the stores; the state of the caller's dataset after an exception is not tracked.
\<close>

definition grid_predictions ::
  "numpy_casts \<Rightarrow> dataset \<Rightarrow> table \<Rightarrow> py_error + dataset \<times> dataset" where
  "grid_predictions nc data preds =
     (case argmax_axis1 preds of
        Inl e \<Rightarrow> Inl e
      | Inr ptype \<Rightarrow>
          (case reshape3 (dim_y data) (dim_x data) (n_cols preds + 1)
                  (hstack_ptype (t_rows preds) ptype) of
             Inl e \<Rightarrow> Inl e
           | Inr reshaped_preds \<Rightarrow>
               (case ml_loop nc (n_cols preds + 1) reshaped_preds data ptypes of
                  Inl e \<Rightarrow> Inl e
                | Inr data1 \<Rightarrow>
                    (let data2 = fold (\<lambda>var d. cast_uint8 nc d var)
                                   [''crain'', ''csnow'', ''cicep'', ''cfrzr''] data1;
                         data3 = cast_coords nc data2
                     in Inr (data3, drop_levels data3)))))"

subsection \<open>Reading the result\<close>

text \<open>
  \<^verbatim>\<open>data[name].values[r, c]\<close> of a variable over \<open>(y, x)\<close>, and the names
  \<^verbatim>\<open>f"ML_{v}"\<close> and \<^verbatim>\<open>f"ML_c{v}"\<close> of the fields stored for the \<open>i\<close>-th
  precipitation type.
\<close>

definition grid_value :: "dataset \<Rightarrow> string \<Rightarrow> nat \<Rightarrow> nat \<Rightarrow> real option" where
  "grid_value d name r c =
     (case data_vars d name of
        None \<Rightarrow> None
      | Some var \<Rightarrow>
          (case vals var of
             Grid3 grids \<Rightarrow> None
           | Grid2 g \<Rightarrow> if r < length g \<and> c < length (g ! r) then Some (g ! r ! c) else None))"

definition ml_name :: "nat \<Rightarrow> string" where
  "ml_name i = ''ML_'' @ snd (snd (ptypes ! i))"

definition ml_cname :: "nat \<Rightarrow> string" where
  "ml_cname i = ''ML_c'' @ snd (snd (ptypes ! i))"

subsection \<open>Reading a dataset\<close>

text \<open>
  The values of the level coordinate (\<^verbatim>\<open>ds["isobaricInhPa"].values\<close>) and the grids of a
  pressure-level variable, one per level (\<^verbatim>\<open>ds[v].values\<close>). A pressure-level variable
  is well formed when it has one grid per level and every grid has the extents of the
  dimensions \<open>y\<close> and \<open>x\<close>.
\<close>

definition levels_of :: "dataset \<Rightarrow> real list" where
  "levels_of ds = (case map_of (coords ds) ''isobaricInhPa'' of None \<Rightarrow> [] | Some c \<Rightarrow> cvals c)"

definition grids_of :: "dataset \<Rightarrow> string \<Rightarrow> real list list list" where
  "grids_of ds v =
     (case data_vars ds v of
        None \<Rightarrow> []
      | Some var \<Rightarrow> (case vals var of Grid2 g \<Rightarrow> [] | Grid3 gs \<Rightarrow> gs))"

definition wf_grid :: "dataset \<Rightarrow> real list list \<Rightarrow> bool" where
  "wf_grid ds g = (length g = dim_y ds \<and> list_all (\<lambda>row. length row = dim_x ds) g)"

definition wf_level_var :: "dataset \<Rightarrow> string \<Rightarrow> bool" where
  "wf_level_var ds v =
     (case data_vars ds v of
        None \<Rightarrow> False
      | Some var \<Rightarrow>
          (case vals var of
             Grid2 g \<Rightarrow> False
           | Grid3 gs \<Rightarrow> length gs = length (levels_of ds) \<and> list_all (wf_grid ds) gs))"

text \<open>
  The table the flattener is to produce, in the words of its contract: for each requested
  variable in turn, one column per level in the order of the level axis, named
  \<^verbatim>\<open><variable>_<level>\<close> and holding the row-major flattening of the grid at that level.
\<close>

definition flat_columns :: "dataset \<Rightarrow> string list \<Rightarrow> (string \<times> real list) list" where
  "flat_columns ds varsP =
     concat (map (\<lambda>v. map (\<lambda>j. (col_name v (levels_of ds ! j), ravel (grids_of ds v ! j)))
                          [0 ..< length (levels_of ds)]) varsP)"

text \<open>A dataset of two levels on a grid of two rows and three columns.\<close>

definition example_dataset :: dataset where
  "example_dataset =
     \<lparr>dim_y = 2, dim_x = 3,
      data_vars =
        [''t'' \<mapsto> \<lparr>dtype = Float64,
                     vals = Grid3 [[[1, 2, 3], [4, 5, 6]], [[7, 8, 9], [10, 11, 12]]], attrs = []\<rparr>,
         ''u'' \<mapsto> \<lparr>dtype = Float64,
                     vals = Grid3 [[[21, 22, 23], [24, 25, 26]], [[27, 28, 29], [30, 31, 32]]],
                     attrs = []\<rparr>,
         ''crain'' \<mapsto> \<lparr>dtype = Float64, vals = Grid2 [[0, 0, 1], [1, 0, 0]], attrs = []\<rparr>],
      coords = [(''isobaricInhPa'', \<lparr>cdtype = Float64, cvals = [1000, 975.5]\<rparr>)]\<rparr>"

subsection \<open>An example input\<close>

text \<open>
  A flat table of two points with the five profile variables on the levels 1000 and 900,
  and the surface observations of the two points.
\<close>

definition example_table :: dataframe where
  "example_table =
     \<lparr>nrows = 2,
      columns = [(''t_1000'', [10, 20]), (''t_900'', [5, 15]),
                 (''dpt_1000'', [1, 2]), (''dpt_900'', [0, 1]),
                 (''u_1000'', [3, 4]), (''u_900'', [5, 6]),
                 (''v_1000'', [7, 8]), (''v_900'', [9, 10]),
                 (''hgt_above_sfc_1000'', [100, 200]), (''hgt_above_sfc_900'', [1100, 1200])]\<rparr>"

definition example_surface :: "string \<rightharpoonup> real list" where
  "example_surface =
     [''t2m'' \<mapsto> [11, 21], ''d2m'' \<mapsto> [2, 3], ''u10'' \<mapsto> [0, 0], ''v10'' \<mapsto> [1, 1]]"

subsection \<open>Objects and references\<close>

text \<open>
  The three functions get Python objects and may share them with their caller. The state
  holds the objects of each kind that a call can reach: datasets, data frames, dictionaries
  of surface arrays, prediction tables and two-dimensional arrays. A reference is the
  index of an object in the list of its kind. A call takes references and the state, and
  returns the reference of its result with the state it leaves; a new object is appended,
  an assignment into an object replaces it at its index.
\<close>

record store =
  datasets :: "dataset list"
  frames :: "dataframe list"
  surfaces :: "(string \<rightharpoonup> real list) list"
  tables :: "table list"
  ndarrays :: "real list list list"

text \<open>
  \<^verbatim>\<open>np.zeros\<close>, \<^verbatim>\<open>.values\<close> and \<^verbatim>\<open>np.concatenate\<close> produce an array object of their own.
\<close>

definition new_array :: "store \<Rightarrow> real list list \<Rightarrow> nat \<times> store" where
  "new_array s a = (length (ndarrays s), s\<lparr>ndarrays := ndarrays s @ [a]\<rparr>)"

text \<open>
  \<^verbatim>\<open>df_flatten\<close> reads the dataset and builds \<^verbatim>\<open>pd.DataFrame(flat_data, columns=cols)\<close>:
  the frame is a new object, nothing is assigned into the dataset.
\<close>

definition df_flatten_st :: "store \<Rightarrow> nat \<Rightarrow> string list \<Rightarrow> py_error + nat \<times> store" where
  "df_flatten_st s ds varsP =
     (case df_flatten (datasets s ! ds) varsP of
        Inl e \<Rightarrow> Inl e
      | Inr df \<Rightarrow> Inr (length (frames s), s\<lparr>frames := frames s @ [df]\<rparr>))"

text \<open>
  \<^verbatim>\<open>interpolate\<close> fills \<^verbatim>\<open>arr = np.zeros(...)\<close>, an array it creates, and returns it; it
  reads \<^verbatim>\<open>x\<close> and \<^verbatim>\<open>y\<close>.
\<close>

definition interpolate_st :: "store \<Rightarrow> nat \<Rightarrow> nat \<Rightarrow> real list \<Rightarrow> py_error + nat \<times> store" where
  "interpolate_st s x y height_levels =
     (case interpolate (ndarrays s ! x) (ndarrays s ! y) height_levels of
        Inl e \<Rightarrow> Inl e
      | Inr arr \<Rightarrow> Inr (new_array s arr))"

text \<open>
  One pass of the loop of \<^verbatim>\<open>convert_and_interpolate\<close>. The only assignment into an
  object is \<^verbatim>\<open>height_interp_data[:, 0] = surface_data[sv]\<close>: it replaces the array at the
  reference that \<^verbatim>\<open>interpolate\<close> returned.
\<close>

definition var_block_st ::
  "store \<Rightarrow> nat \<Rightarrow> nat \<Rightarrow> real list \<Rightarrow> nat \<Rightarrow> real list \<Rightarrow> string \<times> string
     \<Rightarrow> py_error + nat \<times> store" where
  "var_block_st s data surface_data pressure_levels height_data height_levels vsv =
     (case getitem_cols (columns (frames s ! data)) (map (col_name (fst vsv)) pressure_levels) of
        Inl e \<Rightarrow> Inl e
      | Inr cs \<Rightarrow>
          (case new_array s (values2d (nrows (frames s ! data)) cs) of
             (pressure_level_data, s1) \<Rightarrow>
               (case interpolate_st s1 height_data pressure_level_data height_levels of
                  Inl e \<Rightarrow> Inl e
                | Inr (height_interp_data, s2) \<Rightarrow>
                    (case (surfaces s2 ! surface_data) (snd vsv) of
                       None \<Rightarrow> Inl KeyError
                     | Some sv \<Rightarrow>
                         (case setitem_col0 (length height_levels)
                                 (ndarrays s2 ! height_interp_data) sv of
                            Inl e \<Rightarrow> Inl e
                          | Inr a \<Rightarrow>
                              Inr (height_interp_data,
                                   s2\<lparr>ndarrays := (ndarrays s2)[height_interp_data := a]\<rparr>))))))"

fun var_arrays_loop_st ::
  "store \<Rightarrow> nat \<Rightarrow> nat \<Rightarrow> real list \<Rightarrow> nat \<Rightarrow> real list \<Rightarrow> (string \<times> string) list
     \<Rightarrow> py_error + nat list \<times> store" where
  "var_arrays_loop_st s data surface_data pressure_levels height_data height_levels [] =
     Inr ([], s)"
| "var_arrays_loop_st s data surface_data pressure_levels height_data height_levels (vsv # rest) =
     (case var_block_st s data surface_data pressure_levels height_data height_levels vsv of
        Inl e \<Rightarrow> Inl e
      | Inr (b, s1) \<Rightarrow>
          (case var_arrays_loop_st s1 data surface_data pressure_levels height_data
                  height_levels rest of
             Inl e \<Rightarrow> Inl e
           | Inr (bs, s2) \<Rightarrow> Inr (b # bs, s2)))"

definition convert_and_interpolate_st ::
  "store \<Rightarrow> nat \<Rightarrow> nat \<Rightarrow> real list \<Rightarrow> height_conf \<Rightarrow> py_error + nat \<times> store" where
  "convert_and_interpolate_st s data surface_data pressure_levels height_levels =
     (case height_level_seq height_levels of
        Inl e \<Rightarrow> Inl e
      | Inr hl \<Rightarrow>
          (case getitem_cols (columns (frames s ! data))
                  (map (col_name ''hgt_above_sfc'') pressure_levels) of
             Inl e \<Rightarrow> Inl e
           | Inr hc \<Rightarrow>
               (case new_array s (values2d (nrows (frames s ! data)) hc) of
                  (height_data, s1) \<Rightarrow>
                    (case var_arrays_loop_st s1 data surface_data pressure_levels height_data
                            (map real_of_int hl) (zip variables surface_variables) of
                       Inl e \<Rightarrow> Inl e
                     | Inr (var_arrays, s2) \<Rightarrow>
                         (case concatenate_axis1 (map (\<lambda>r. ndarrays s2 ! r) var_arrays) of
                            Inl e \<Rightarrow> Inl e
                          | Inr all_data \<Rightarrow> Inr (new_array s2 all_data))))))"

text \<open>
  \<^verbatim>\<open>grid_predictions\<close> assigns into \<^verbatim>\<open>data\<close>, the dataset of its caller
  (\<^verbatim>\<open>data[f"ML_{v}"] = ...\<close>, \<^verbatim>\<open>data[var] = data[var].astype('uint8')\<close>,
  \<^verbatim>\<open>data[v] = data[v].astype('float32')\<close>), and returns \<^verbatim>\<open>data.drop(drop_vars)\<close>, a new
  dataset. \<^verbatim>\<open>preds = np.hstack([preds, ptype])\<close> binds the local name to a new array; the
  table of the caller is only read.
\<close>

definition grid_predictions_st ::
  "numpy_casts \<Rightarrow> store \<Rightarrow> nat \<Rightarrow> nat \<Rightarrow> py_error + nat \<times> store" where
  "grid_predictions_st nc s data preds =
     (case grid_predictions nc (datasets s ! data) (tables s ! preds) of
        Inl e \<Rightarrow> Inl e
      | Inr (data', ret) \<Rightarrow>
          Inr (length (datasets s), s\<lparr>datasets := (datasets s)[data := data'] @ [ret]\<rparr>))"

text \<open>
  The state \<open>s'\<close> keeps every object of \<open>s\<close> and may hold more arrays.
\<close>

definition only_new_arrays :: "store \<Rightarrow> store \<Rightarrow> bool" where
  "only_new_arrays s s' =
     (datasets s' = datasets s \<and> frames s' = frames s \<and> surfaces s' = surfaces s
      \<and> tables s' = tables s \<and> length (ndarrays s) \<le> length (ndarrays s')
      \<and> take (length (ndarrays s)) (ndarrays s') = ndarrays s)"

text \<open>
  A state with the example inputs, a second dataset and an array that no call refers to.
  The probabilities of the six points of the example dataset are exact binary fractions.
\<close>

definition example_preds :: table where
  "example_preds =
     \<lparr>n_cols = 4,
      t_rows = [[0.5, 0.5, 0, 0], [0, 1, 0, 0], [0, 0, 1, 0],
                [0, 0, 0, 1], [1, 0, 0, 0], [0.25, 0.25, 0.25, 0.25]]\<rparr>"

definition example_store :: store where
  "example_store =
     \<lparr>datasets = [example_dataset,
                   \<lparr>dim_y = 1, dim_x = 2, data_vars = Map.empty, coords = []\<rparr>],
      frames = [example_table],
      surfaces = [example_surface],
      tables = [example_preds],
      ndarrays = [[[1, 2]]]\<rparr>"

text \<open>
  On a value that the target type represents exactly \<^verbatim>\<open>astype\<close> returns that value; the
  numbers of the example are of this kind.
\<close>

definition exact_casts :: numpy_casts where
  "exact_casts = \<lparr>to_float32 = id, to_uint8 = id\<rparr>"

section \<open>Properties\<close>

subsection \<open>Height levels (claim C2)\<close>

lemma np_arange_exact:
  assumes "0 < step" and "start \<le> stop'" and "step dvd (stop' - start)"
  shows "np_arange start (stop' + step) step =
           Inr (map (\<lambda>k. start + int k * step) [0 ..< nat ((stop' - start) div step) + 1])"
proof -
  obtain q where q: "stop' - start = step * q"
    using assms(3) by (auto simp: dvd_def)
  have "0 \<le> q"
    using assms(1,2) q by (metis diff_ge_0_iff_ge zero_le_mult_iff not_less order_less_imp_le)
  have "start - (stop' + step) = step * (- q - 1)"
    using q by (simp add: algebra_simps)
  then have "(start - (stop' + step)) div step = - q - 1"
    using assms(1) by simp
  moreover have "(stop' - start) div step = q"
    using q assms(1) by simp
  ultimately show ?thesis
    using assms(1) \<open>0 \<le> q\<close> by (simp add: np_arange_def nat_add_distrib)
qed

lemma height_level_seq_exact:
  assumes "0 < interval c" and "low c \<le> high c" and "interval c dvd (high c - low c)"
  shows "height_level_seq c =
           Inr (map (\<lambda>k. low c + int k * interval c)
                    [0 ..< nat ((high c - low c) div interval c) + 1])"
  unfolding height_level_seq_def using assms by (rule np_arange_exact)

lemma sorted_wrt_arith_seq:
  assumes "0 < (d::int)"
  shows "sorted_wrt (<) (map (\<lambda>k. a + int k * d) [0 ..< n])"
  using assms by (simp add: sorted_wrt_map sorted_wrt_iff_nth_less)

text \<open>
  Claim C2, as the code has it. The stop value \<open>high + interval\<close> makes the range end at
  \<open>high\<close> exactly when the interval is positive, \<open>low \<le> high\<close> and the interval divides
  \<open>high - low\<close>: then the sequence is \<open>low, low + interval, \<dots>, high\<close>, strictly
  increasing, with \<open>(high - low) div interval + 1\<close> elements.
\<close>

theorem height_level_seq_closed_range:
  assumes "0 < interval c" and "low c \<le> high c" and "interval c dvd (high c - low c)"
  shows "\<exists>hs. height_level_seq c = Inr hs
            \<and> length hs = nat ((high c - low c) div interval c) + 1
            \<and> hd hs = low c \<and> last hs = high c \<and> sorted_wrt (<) hs
            \<and> (\<forall>k < length hs. hs ! k = low c + int k * interval c)"
proof -
  let ?n = "nat ((high c - low c) div interval c)"
  let ?hs = "map (\<lambda>k. low c + int k * interval c) [0 ..< ?n + 1]"
  have eq: "height_level_seq c = Inr ?hs"
    using assms by (rule height_level_seq_exact)
  have q: "0 \<le> (high c - low c) div interval c"
    using assms(1,2) by (simp add: pos_imp_zdiv_nonneg_iff)
  have "last ?hs = low c + int ?n * interval c"
    by (simp add: last_map del: upt_Suc)
  also have "\<dots> = low c + ((high c - low c) div interval c) * interval c"
    using q by simp
  also have "\<dots> = high c"
    using assms(3) by simp
  finally have l: "last ?hs = high c" .
  have h: "hd ?hs = low c"
    by (simp add: hd_map upt_conv_Cons del: upt_Suc)
  have s: "sorted_wrt (<) ?hs"
    using assms(1) by (rule sorted_wrt_arith_seq)
  have n: "\<forall>k < length ?hs. ?hs ! k = low c + int k * interval c"
    by (simp del: upt_Suc)
  show ?thesis
    using eq l h s n by (intro exI[of _ ?hs]) (simp del: upt_Suc)
qed

text \<open>
  The configuration \<open>{low = 0, high = 3000, interval = 250}\<close>: 13 levels, strictly
  increasing, from 0 to 3000.
\<close>

theorem height_level_seq_closed_range_witness:
  "(0::int) < 250 \<and> (0::int) \<le> 3000 \<and> (250::int) dvd 3000 - 0
     \<and> (\<exists>hs. height_level_seq \<lparr>low = 0, high = 3000, interval = 250\<rparr> = Inr hs
            \<and> length hs = 13 \<and> hd hs = 0 \<and> last hs = 3000 \<and> sorted_wrt (<) hs)"
  using height_level_seq_closed_range [of "\<lparr>low = 0, high = 3000, interval = 250\<rparr>"]
  by auto

text \<open>
  Without the divisibility the range runs past \<open>high\<close>: for
  \<open>{low = 0, high = 100, interval = 30}\<close> the last level is 120 and 100 is not a level.
\<close>

theorem height_level_seq_overshoot:
  "height_level_seq \<lparr>low = 0, high = 100, interval = 30\<rparr> = Inr [0, 30, 60, 90, 120]
     \<and> last [0, 30, 60, 90, 120] \<noteq> (100::int)"
  by (simp add: height_level_seq_def np_arange_def upt_rec)

subsection \<open>Interpolation (claim C1)\<close>

lemma bisect_bracket:
  assumes "imin \<le> imax" and "imax \<le> length arr"
      and "imax < length arr \<longrightarrow> key < arr ! imax"
      and "(1 \<le> imin \<and> arr ! (imin - 1) \<le> key) \<or> (imin < imax \<and> arr ! imin \<le> key)"
  shows "1 \<le> bisect key arr imin imax \<and> bisect key arr imin imax \<le> length arr
       \<and> arr ! (bisect key arr imin imax - 1) \<le> key
       \<and> (bisect key arr imin imax < length arr \<longrightarrow> key < arr ! bisect key arr imin imax)"
  using assms
proof (induction key arr imin imax rule: bisect.induct)
  case (1 key arr imin imax)
  let ?mid = "imin + (imax - imin) div 2"
  show ?case
  proof (cases "imin < imax")
    case False
    then have e: "imin = imax" using "1.prems"(1) by simp
    have b: "bisect key arr imin imax = imin" using False by (subst bisect.simps) simp
    show ?thesis unfolding b using "1.prems" e by auto
  next
    case True
    then have m: "imin \<le> ?mid" "?mid < imax" by auto
    show ?thesis
    proof (cases "key \<ge> arr ! ?mid")
      case ge: True
      have b: "bisect key arr imin imax = bisect key arr (?mid + 1) imax"
        using True ge by (subst bisect.simps) simp
      have "1 \<le> bisect key arr (?mid + 1) imax \<and> bisect key arr (?mid + 1) imax \<le> length arr
       \<and> arr ! (bisect key arr (?mid + 1) imax - 1) \<le> key
       \<and> (bisect key arr (?mid + 1) imax < length arr \<longrightarrow> key < arr ! bisect key arr (?mid + 1) imax)"
        using "1.IH"(1)[OF True ge] m ge "1.prems"(2,3) by simp
      then show ?thesis unfolding b .
    next
      case lt: False
      have b: "bisect key arr imin imax = bisect key arr imin ?mid"
        using True lt by (subst bisect.simps) simp
      have d: "(1 \<le> imin \<and> arr ! (imin - 1) \<le> key) \<or> (imin < ?mid \<and> arr ! imin \<le> key)"
      proof (cases "1 \<le> imin \<and> arr ! (imin - 1) \<le> key")
        case True
        then show ?thesis by simp
      next
        case False
        then have s: "arr ! imin \<le> key" using "1.prems"(4) by auto
        have "imin \<noteq> ?mid"
        proof
          assume "imin = ?mid"
          then have "arr ! ?mid = arr ! imin" by simp
          then show False using s lt by simp
        qed
        then show ?thesis using s m by simp
      qed
      have "1 \<le> bisect key arr imin ?mid \<and> bisect key arr imin ?mid \<le> length arr
       \<and> arr ! (bisect key arr imin ?mid - 1) \<le> key
       \<and> (bisect key arr imin ?mid < length arr \<longrightarrow> key < arr ! bisect key arr imin ?mid)"
        using "1.IH"(2)[OF True lt] m lt d "1.prems"(2) by simp
      then show ?thesis unfolding b .
    qed
  qed
qed

lemma linear_scan_bracket:
  assumes "(arr :: real list) \<noteq> []" and "hd arr \<le> key"
  defines "t \<equiv> length (takeWhile (\<lambda>a. key \<ge> a) (tl arr))"
  shows "t < length arr" and "arr ! t \<le> key" and "Suc t < length arr \<longrightarrow> key < arr ! Suc t"
proof -
  let ?P = "\<lambda>a. key \<ge> a"
  have tl: "t \<le> length (tl arr)" unfolding t_def by (rule length_takeWhile_le)
  then show "t < length arr" using assms(1) by (cases arr) auto
  show "arr ! t \<le> key"
  proof (cases t)
    case 0
    then show ?thesis using assms(1,2) by (simp add: hd_conv_nth)
  next
    case (Suc n)
    then have n: "n < length (takeWhile ?P (tl arr))" unfolding t_def by simp
    then have "takeWhile ?P (tl arr) ! n \<in> set (takeWhile ?P (tl arr))" by (rule nth_mem)
    then have "?P (takeWhile ?P (tl arr) ! n)" by (rule set_takeWhileD[THEN conjunct2])
    then have "?P (tl arr ! n)" using n by (simp add: takeWhile_nth)
    moreover have "n < length (tl arr)" using tl Suc by simp
    ultimately show ?thesis using Suc by (simp add: nth_tl)
  qed
  show "Suc t < length arr \<longrightarrow> key < arr ! Suc t"
  proof
    assume "Suc t < length arr"
    then have l: "t < length (tl arr)" by simp
    then have "\<not> ?P (tl arr ! t)" unfolding t_def by (intro nth_length_takeWhile) simp
    then show "key < arr ! Suc t" using l by (simp add: nth_tl)
  qed
qed

lemma bswg_right:
  assumes "arr \<noteq> []" and "last arr < key"
  shows "binary_search_with_guess key arr g = int (length arr)"
  using assms by (simp add: binary_search_with_guess_def last_conv_nth)

lemma bswg_left:
  assumes "arr \<noteq> []" and "\<not> last arr < key" and "key < hd arr"
  shows "binary_search_with_guess key arr g = - 1"
  using assms by (simp add: binary_search_with_guess_def last_conv_nth hd_conv_nth)

lemma bswg_inside:
  assumes ne: "arr \<noteq> []" and lo: "hd arr \<le> key" and hi: "key \<le> last arr"
  shows "\<exists>j < length arr. binary_search_with_guess key arr g = int j \<and> arr ! j \<le> key
           \<and> (Suc j < length arr \<longrightarrow> key < arr ! Suc j)"
proof -
  let ?concl = ?thesis
  let ?len = "length arr"
  have c1: "\<not> key > arr ! (?len - 1)" using hi ne by (simp add: last_conv_nth)
  have c2: "\<not> key < arr ! 0" using lo ne by (simp add: hd_conv_nth)
  show ?thesis
  proof (cases "?len \<le> 4")
    case True
    let ?t = "length (takeWhile (\<lambda>a. key \<ge> a) (tl arr))"
    have "binary_search_with_guess key arr g = int ?t"
      using c1 c2 True by (simp add: binary_search_with_guess_def)
    then show ?thesis using linear_scan_bracket[OF ne lo] by blast
  next
    case False
    define gs where "gs = nat (max 1 (min g (int ?len - 3)))"
    have gs: "1 \<le> gs" "gs + 3 \<le> ?len" using False unfolding gs_def by auto
    have unf: "binary_search_with_guess key arr g =
         (if key < arr ! gs then
           (if key < arr ! (gs - 1)
            then int (bisect key arr
                        (if gs > 8 \<and> key \<ge> arr ! (gs - 8) then gs - 8 else 0)
                        (gs - 1)) - 1
            else int gs - 1)
         else if key < arr ! (gs + 1) then int gs
         else if key < arr ! (gs + 2) then int gs + 1
         else int (bisect key arr (gs + 2)
                     (if gs + 9 < ?len \<and> key < arr ! (gs + 8) then gs + 8 else ?len)) - 1)"
      using c1 c2 False unfolding binary_search_with_guess_def gs_def Let_def by simp
    have fin: "\<And>b. 1 \<le> b \<and> b \<le> ?len \<and> arr ! (b - 1) \<le> key \<and> (b < ?len \<longrightarrow> key < arr ! b)
        \<Longrightarrow> binary_search_with_guess key arr g = int b - 1 \<Longrightarrow> ?concl"
    proof -
      fix b assume b: "1 \<le> b \<and> b \<le> ?len \<and> arr ! (b - 1) \<le> key \<and> (b < ?len \<longrightarrow> key < arr ! b)"
        and e: "binary_search_with_guess key arr g = int b - 1"
      have "b - 1 < ?len" "binary_search_with_guess key arr g = int (b - 1)"
           "arr ! (b - 1) \<le> key" "Suc (b - 1) < ?len \<longrightarrow> key < arr ! Suc (b - 1)"
        using b e by (auto simp: of_nat_diff)
      then show ?concl by blast
    qed
    show ?thesis
    proof (cases "key < arr ! gs")
      case lt: True
      show ?thesis
      proof (cases "key < arr ! (gs - 1)")
        case lt2: True
        let ?imin = "if gs > 8 \<and> key \<ge> arr ! (gs - 8) then gs - 8 else 0"
        have g2: "gs \<noteq> 1" using lt2 c2 by auto
        have "1 \<le> bisect key arr ?imin (gs - 1) \<and> bisect key arr ?imin (gs - 1) \<le> ?len
           \<and> arr ! (bisect key arr ?imin (gs - 1) - 1) \<le> key
           \<and> (bisect key arr ?imin (gs - 1) < ?len \<longrightarrow> key < arr ! bisect key arr ?imin (gs - 1))"
        proof (rule bisect_bracket)
          show "?imin \<le> gs - 1" by auto
          show "gs - 1 \<le> ?len" using gs by simp
          show "gs - 1 < ?len \<longrightarrow> key < arr ! (gs - 1)" using lt2 by simp
          show "(1 \<le> ?imin \<and> arr ! (?imin - 1) \<le> key) \<or> (?imin < gs - 1 \<and> arr ! ?imin \<le> key)"
            using c2 g2 gs by auto
        qed
        moreover have "binary_search_with_guess key arr g = int (bisect key arr ?imin (gs - 1)) - 1"
          using unf lt lt2 by simp
        ultimately show ?thesis by (rule fin)
      next
        case ge2: False
        have "gs - 1 < ?len" "binary_search_with_guess key arr g = int (gs - 1)"
             "arr ! (gs - 1) \<le> key" "Suc (gs - 1) < ?len \<longrightarrow> key < arr ! Suc (gs - 1)"
          using unf lt ge2 gs by (auto simp: of_nat_diff)
        then show ?thesis by blast
      qed
    next
      case ge: False
      show ?thesis
      proof (cases "key < arr ! (gs + 1)")
        case True
        have "gs < ?len" "binary_search_with_guess key arr g = int gs"
             "arr ! gs \<le> key" "Suc gs < ?len \<longrightarrow> key < arr ! Suc gs"
          using unf ge True gs by auto
        then show ?thesis by blast
      next
        case ge1: False
        show ?thesis
        proof (cases "key < arr ! (gs + 2)")
          case True
          have "gs + 1 < ?len" "binary_search_with_guess key arr g = int (gs + 1)"
               "arr ! (gs + 1) \<le> key" "Suc (gs + 1) < ?len \<longrightarrow> key < arr ! Suc (gs + 1)"
            using unf ge ge1 True gs by auto
          then show ?thesis by blast
        next
          case ge2: False
          let ?imax = "if gs + 9 < ?len \<and> key < arr ! (gs + 8) then gs + 8 else ?len"
          have "1 \<le> bisect key arr (gs + 2) ?imax \<and> bisect key arr (gs + 2) ?imax \<le> ?len
             \<and> arr ! (bisect key arr (gs + 2) ?imax - 1) \<le> key
             \<and> (bisect key arr (gs + 2) ?imax < ?len \<longrightarrow> key < arr ! bisect key arr (gs + 2) ?imax)"
          proof (rule bisect_bracket)
            show "gs + 2 \<le> ?imax" using gs by auto
            show "?imax \<le> ?len" by auto
            show "?imax < ?len \<longrightarrow> key < arr ! ?imax" by auto
            show "(1 \<le> gs + 2 \<and> arr ! (gs + 2 - 1) \<le> key) \<or> (gs + 2 < ?imax \<and> arr ! (gs + 2) \<le> key)"
              using ge1 by auto
          qed
          moreover have "binary_search_with_guess key arr g = int (bisect key arr (gs + 2) ?imax) - 1"
            using unf ge ge1 ge2 by simp
          ultimately show ?thesis by (rule fin)
        qed
      qed
    qed
  qed
qed

lemma interp_value_at:
  assumes ne: "dx \<noteq> []" and len: "length dy = length dx"
  shows "(last dx < x \<longrightarrow> interp_value dx dy x (binary_search_with_guess x dx g) = last dy)
       \<and> (\<not> last dx < x \<and> x < hd dx \<longrightarrow>
            interp_value dx dy x (binary_search_with_guess x dx g) = hd dy)
       \<and> (hd dx \<le> x \<and> x \<le> last dx \<longrightarrow>
            (\<exists>j < length dx. dx ! j \<le> x
               \<and> (Suc j = length dx \<longrightarrow>
                    interp_value dx dy x (binary_search_with_guess x dx g) = dy ! j)
               \<and> (Suc j < length dx \<longrightarrow> x < dx ! Suc j
                    \<and> interp_value dx dy x (binary_search_with_guess x dx g) =
                        dy ! j + (dy ! Suc j - dy ! j) / (dx ! Suc j - dx ! j) * (x - dx ! j))))"
proof (intro conjI impI)
  have dne: "dy \<noteq> []" using ne len by auto
  { assume "last dx < x"
    then have "binary_search_with_guess x dx g = int (length dx)" using ne by (intro bswg_right)
    then show "interp_value dx dy x (binary_search_with_guess x dx g) = last dy"
      using dne len by (simp add: interp_value_def last_conv_nth) }
  { assume "\<not> last dx < x \<and> x < hd dx"
    then have "binary_search_with_guess x dx g = - 1" using ne by (intro bswg_left) auto
    then show "interp_value dx dy x (binary_search_with_guess x dx g) = hd dy"
      using dne by (simp add: interp_value_def hd_conv_nth) }
  { assume "hd dx \<le> x \<and> x \<le> last dx"
    then obtain j where j: "j < length dx" and e: "binary_search_with_guess x dx g = int j"
      and lo: "dx ! j \<le> x" and hi: "Suc j < length dx \<longrightarrow> x < dx ! Suc j"
      using bswg_inside[OF ne, of x g] by blast
    have a: "Suc j = length dx \<longrightarrow> interp_value dx dy x (int j) = dy ! j"
      by (auto simp: interp_value_def)
    have b: "Suc j < length dx \<longrightarrow> interp_value dx dy x (int j) =
                dy ! j + (dy ! Suc j - dy ! j) / (dx ! Suc j - dx ! j) * (x - dx ! j)"
      by (auto simp: interp_value_def)
    show "\<exists>j < length dx. dx ! j \<le> x
               \<and> (Suc j = length dx \<longrightarrow>
                    interp_value dx dy x (binary_search_with_guess x dx g) = dy ! j)
               \<and> (Suc j < length dx \<longrightarrow> x < dx ! Suc j
                    \<and> interp_value dx dy x (binary_search_with_guess x dx g) =
                        dy ! j + (dy ! Suc j - dy ! j) / (dx ! Suc j - dx ! j) * (x - dx ! j))"
      unfolding e using j lo hi a b by blast }
qed

lemma interp_loop_length: "length (interp_loop dx dy j x) = length x"
  by (induction x arbitrary: j) simp_all

lemma interp_loop_nth:
  "k < length x \<Longrightarrow>
     \<exists>g. interp_loop dx dy j x ! k = interp_value dx dy (x ! k) (binary_search_with_guess (x ! k) dx g)"
proof (induction x arbitrary: j k)
  case Nil
  then show ?case by simp
next
  case (Cons a x)
  show ?case
  proof (cases k)
    case 0
    then show ?thesis by auto
  next
    case (Suc n)
    then have "n < length x" using Cons.prems by simp
    from Cons.IH[OF this, of "binary_search_with_guess a dx j"] Suc show ?thesis by simp
  qed
qed

lemma np_interp_length:
  "np_interp hl xp fp = Inr row \<Longrightarrow> length row = length hl"
  by (auto simp: np_interp_def interp_loop_length split: if_splits)

lemma np_interp_total:
  "xp \<noteq> [] \<Longrightarrow> length fp = length xp \<Longrightarrow> \<exists>row. np_interp hl xp fp = Inr row"
  by (simp add: np_interp_def)

lemma np_interp_at:
  assumes r: "np_interp hl xp fp = Inr row" and k: "k < length hl"
  shows "(last xp < hl ! k \<longrightarrow> row ! k = last fp)
       \<and> (\<not> last xp < hl ! k \<and> hl ! k < hd xp \<longrightarrow> row ! k = hd fp)
       \<and> (hd xp \<le> hl ! k \<and> hl ! k \<le> last xp \<longrightarrow>
            (\<exists>j < length xp. xp ! j \<le> hl ! k
               \<and> (Suc j = length xp \<longrightarrow> row ! k = fp ! j)
               \<and> (Suc j < length xp \<longrightarrow> hl ! k < xp ! Suc j
                    \<and> row ! k = fp ! j + (fp ! Suc j - fp ! j) / (xp ! Suc j - xp ! j)
                                          * (hl ! k - xp ! j))))"
proof -
  have ne: "xp \<noteq> []" and len: "length fp = length xp"
    using r by (auto simp: np_interp_def split: if_splits)
  show ?thesis
  proof (cases "length xp = 1")
    case True
    then obtain a where fp: "fp = [a]" using len by (cases fp) auto
    have v: "row ! k = a" using r k True fp by (auto simp: np_interp_def split: if_splits)
    have "\<exists>j < length xp. xp ! j \<le> hl ! k \<and> (Suc j = length xp \<longrightarrow> a = fp ! j)
            \<and> (Suc j < length xp \<longrightarrow> hl ! k < xp ! Suc j
                    \<and> a = fp ! j + (fp ! Suc j - fp ! j) / (xp ! Suc j - xp ! j) * (hl ! k - xp ! j))"
      if "hd xp \<le> hl ! k"
      using that True ne fp by (intro exI[of _ 0]) (simp add: hd_conv_nth)
    then show ?thesis unfolding v using fp by auto
  next
    case False
    then have "row = interp_loop xp fp 0 hl"
      using r ne len by (auto simp: np_interp_def split: if_splits)
    then obtain g where
      v: "row ! k = interp_value xp fp (hl ! k) (binary_search_with_guess (hl ! k) xp g)"
      using interp_loop_nth[OF k] by blast
    show ?thesis unfolding v by (rule interp_value_at[OF ne len])
  qed
qed

lemma np_interp_sorted:
  assumes r: "np_interp hl xp fp = Inr row" and s: "sorted xp" and k: "k < length hl"
  shows "(hl ! k < hd xp \<longrightarrow> row ! k = hd fp)
       \<and> (last xp \<le> hl ! k \<longrightarrow> row ! k = last fp)
       \<and> (\<forall>j. Suc j < length xp \<and> xp ! j \<le> hl ! k \<and> hl ! k < xp ! Suc j \<longrightarrow>
              row ! k = fp ! j + (fp ! Suc j - fp ! j) / (xp ! Suc j - xp ! j) * (hl ! k - xp ! j))"
proof -
  have ne: "xp \<noteq> []" and len: "length fp = length xp"
    using r by (auto simp: np_interp_def split: if_splits)
  note at = np_interp_at[OF r k]
  have hl: "hd xp \<le> last xp"
    using s ne sorted_nth_mono[of xp 0 "length xp - 1"] by (simp add: hd_conv_nth last_conv_nth)
  have top: "\<And>j. j < length xp \<Longrightarrow> xp ! j \<le> last xp"
    using s ne sorted_nth_mono[of xp _ "length xp - 1"] by (simp add: last_conv_nth)
  have bot: "\<And>j. j < length xp \<Longrightarrow> hd xp \<le> xp ! j"
    using s ne sorted_nth_mono[of xp 0] by (simp add: hd_conv_nth)
  show ?thesis
  proof (intro conjI impI allI)
    assume "hl ! k < hd xp"
    then show "row ! k = hd fp" using at hl by auto
  next
    assume h: "last xp \<le> hl ! k"
    show "row ! k = last fp"
    proof (cases "last xp < hl ! k")
      case True
      then show ?thesis using at by blast
    next
      case False
      then have e: "hl ! k = last xp" using h by simp
      then obtain j where j: "j < length xp" and
        a: "Suc j = length xp \<longrightarrow> row ! k = fp ! j" and
        b: "Suc j < length xp \<longrightarrow> hl ! k < xp ! Suc j"
        using at hl by auto
      have "\<not> Suc j < length xp" using b e top[of "Suc j"] by auto
      then have sj: "Suc j = length xp" using j by simp
      have "fp \<noteq> []" using len ne by auto
      then have "last fp = fp ! (length fp - 1)" by (rule last_conv_nth)
      also have "\<dots> = fp ! j" using sj len by (metis diff_Suc_1)
      finally show ?thesis using a sj by simp
    qed
  next
    fix j assume j: "Suc j < length xp \<and> xp ! j \<le> hl ! k \<and> hl ! k < xp ! Suc j"
    then have "hd xp \<le> hl ! k \<and> hl ! k \<le> last xp"
      using bot[of j] top[of "Suc j"] by auto
    then obtain j' where j': "j' < length xp" and lo: "xp ! j' \<le> hl ! k" and
      a: "Suc j' = length xp \<longrightarrow> row ! k = fp ! j'" and
      b: "Suc j' < length xp \<longrightarrow> hl ! k < xp ! Suc j'
            \<and> row ! k = fp ! j' + (fp ! Suc j' - fp ! j') / (xp ! Suc j' - xp ! j') * (hl ! k - xp ! j')"
      using at by blast
    have "j' = j"
    proof (rule ccontr)
      assume "j' \<noteq> j"
      then consider "j' < j" | "j < j'" by linarith
      then show False
      proof cases
        case 1
        then have "Suc j' < length xp" "xp ! Suc j' \<le> xp ! j"
          using j s sorted_nth_mono[of xp "Suc j'" j] by auto
        then show False using b j by auto
      next
        case 2
        then have "xp ! Suc j \<le> xp ! j'" using j' s sorted_nth_mono[of xp "Suc j" j'] by auto
        then show False using lo j by auto
      qed
    qed
    then show "row ! k = fp ! j + (fp ! Suc j - fp ! j) / (xp ! Suc j - xp ! j) * (hl ! k - xp ! j)"
      using b j by simp
  qed
qed

lemma interpolate_rows:
  "interpolate x y hl = Inr arr \<Longrightarrow>
     length arr = length x \<and> (\<forall>i < length x. np_interp hl (x ! i) (y ! i) = Inr (arr ! i))"
proof (induction x y hl arbitrary: arr rule: interpolate.induct)
  case (1 y hl)
  then show ?case by simp
next
  case (2 xi x hl)
  then show ?case by simp
next
  case (3 xi x yi y hl)
  from "3.prems" obtain row rest where
    r: "np_interp hl xi yi = Inr row" and s: "interpolate x y hl = Inr rest" and a: "arr = row # rest"
    by (auto split: sum.splits)
  from "3.IH"[OF r s] r a show ?case
    by (auto simp: nth_Cons split: nat.splits)
qed

lemma interpolate_total:
  assumes "length x \<le> length y" and "\<forall>i < length x. x ! i \<noteq> [] \<and> length (y ! i) = length (x ! i)"
  shows "\<exists>arr. interpolate x y hl = Inr arr"
  using assms
proof (induction x y hl rule: interpolate.induct)
  case (1 y hl)
  then show ?case by simp
next
  case (2 xi x hl)
  then show ?case by simp
next
  case (3 xi x yi y hl)
  from "3.prems"(2) have "xi \<noteq> []" "length yi = length xi" by auto
  then obtain row where r: "np_interp hl xi yi = Inr row"
    using np_interp_total by blast
  have "\<forall>i < length x. x ! i \<noteq> [] \<and> length (y ! i) = length (x ! i)"
    using "3.prems"(2) by auto
  with "3.IH"[OF r] "3.prems"(1) obtain rest where "interpolate x y hl = Inr rest" by auto
  with r show ?case by simp
qed

text \<open>
  Claim C1, as the code has it. \<^verbatim>\<open>interpolate\<close> returns one row per profile, and row
  \<open>i\<close> is \<^verbatim>\<open>np.interp\<close> of the target heights on the abscissa \<open>x[i]\<close> and the
  ordinates \<open>y[i]\<close> alone. On every profile a target right of the last abscissa gives the
  last ordinate, otherwise a target left of the first abscissa gives the first ordinate, and
  any other target is interpolated linearly between two neighbouring points \<open>j, j + 1\<close>
  with \<open>x[j] \<le> target < x[j + 1]\<close> (or is the last ordinate). On a non-decreasing
  abscissa this is the clamp to the nearest endpoint outside the range and the piecewise
  linear interpolation between the two bracketing points inside it.
\<close>

theorem interpolate_rowwise_clamped_linear:
  assumes "length x \<le> length y"
      and "\<forall>i < length x. x ! i \<noteq> [] \<and> length (y ! i) = length (x ! i)"
  shows "\<exists>arr. interpolate x y hl = Inr arr \<and> length arr = length x
           \<and> (\<forall>i < length x.
                 np_interp hl (x ! i) (y ! i) = Inr (arr ! i) \<and> length (arr ! i) = length hl
               \<and> (\<forall>k < length hl.
                     (last (x ! i) < hl ! k \<longrightarrow> arr ! i ! k = last (y ! i))
                   \<and> (\<not> last (x ! i) < hl ! k \<and> hl ! k < hd (x ! i) \<longrightarrow> arr ! i ! k = hd (y ! i))
                   \<and> (hd (x ! i) \<le> hl ! k \<and> hl ! k \<le> last (x ! i) \<longrightarrow>
                        (\<exists>j < length (x ! i). x ! i ! j \<le> hl ! k
                           \<and> (Suc j = length (x ! i) \<longrightarrow> arr ! i ! k = y ! i ! j)
                           \<and> (Suc j < length (x ! i) \<longrightarrow> hl ! k < x ! i ! Suc j
                                \<and> arr ! i ! k =
                                    y ! i ! j + (y ! i ! Suc j - y ! i ! j) / (x ! i ! Suc j - x ! i ! j)
                                                  * (hl ! k - x ! i ! j)))))
               \<and> (sorted (x ! i) \<longrightarrow>
                    (\<forall>k < length hl.
                       (hl ! k < hd (x ! i) \<longrightarrow> arr ! i ! k = hd (y ! i))
                     \<and> (last (x ! i) \<le> hl ! k \<longrightarrow> arr ! i ! k = last (y ! i))
                     \<and> (\<forall>j. Suc j < length (x ! i) \<and> x ! i ! j \<le> hl ! k \<and> hl ! k < x ! i ! Suc j \<longrightarrow>
                            arr ! i ! k =
                              y ! i ! j + (y ! i ! Suc j - y ! i ! j) / (x ! i ! Suc j - x ! i ! j)
                                            * (hl ! k - x ! i ! j)))))"
proof -
  obtain arr where a: "interpolate x y hl = Inr arr"
    using interpolate_total[OF assms] by blast
  have rows: "length arr = length x" "\<forall>i < length x. np_interp hl (x ! i) (y ! i) = Inr (arr ! i)"
    using interpolate_rows[OF a] by auto
  have "np_interp hl (x ! i) (y ! i) = Inr (arr ! i) \<and> length (arr ! i) = length hl
               \<and> (\<forall>k < length hl.
                     (last (x ! i) < hl ! k \<longrightarrow> arr ! i ! k = last (y ! i))
                   \<and> (\<not> last (x ! i) < hl ! k \<and> hl ! k < hd (x ! i) \<longrightarrow> arr ! i ! k = hd (y ! i))
                   \<and> (hd (x ! i) \<le> hl ! k \<and> hl ! k \<le> last (x ! i) \<longrightarrow>
                        (\<exists>j < length (x ! i). x ! i ! j \<le> hl ! k
                           \<and> (Suc j = length (x ! i) \<longrightarrow> arr ! i ! k = y ! i ! j)
                           \<and> (Suc j < length (x ! i) \<longrightarrow> hl ! k < x ! i ! Suc j
                                \<and> arr ! i ! k =
                                    y ! i ! j + (y ! i ! Suc j - y ! i ! j) / (x ! i ! Suc j - x ! i ! j)
                                                  * (hl ! k - x ! i ! j)))))
               \<and> (sorted (x ! i) \<longrightarrow>
                    (\<forall>k < length hl.
                       (hl ! k < hd (x ! i) \<longrightarrow> arr ! i ! k = hd (y ! i))
                     \<and> (last (x ! i) \<le> hl ! k \<longrightarrow> arr ! i ! k = last (y ! i))
                     \<and> (\<forall>j. Suc j < length (x ! i) \<and> x ! i ! j \<le> hl ! k \<and> hl ! k < x ! i ! Suc j \<longrightarrow>
                            arr ! i ! k =
                              y ! i ! j + (y ! i ! Suc j - y ! i ! j) / (x ! i ! Suc j - x ! i ! j)
                                            * (hl ! k - x ! i ! j))))"
    if i: "i < length x" for i
  proof -
    have r: "np_interp hl (x ! i) (y ! i) = Inr (arr ! i)" using rows(2) i by simp
    have l: "length (arr ! i) = length hl" using r by (rule np_interp_length)
    have g: "\<And>k. k < length hl \<Longrightarrow>
                     (last (x ! i) < hl ! k \<longrightarrow> arr ! i ! k = last (y ! i))
                   \<and> (\<not> last (x ! i) < hl ! k \<and> hl ! k < hd (x ! i) \<longrightarrow> arr ! i ! k = hd (y ! i))
                   \<and> (hd (x ! i) \<le> hl ! k \<and> hl ! k \<le> last (x ! i) \<longrightarrow>
                        (\<exists>j < length (x ! i). x ! i ! j \<le> hl ! k
                           \<and> (Suc j = length (x ! i) \<longrightarrow> arr ! i ! k = y ! i ! j)
                           \<and> (Suc j < length (x ! i) \<longrightarrow> hl ! k < x ! i ! Suc j
                                \<and> arr ! i ! k =
                                    y ! i ! j + (y ! i ! Suc j - y ! i ! j) / (x ! i ! Suc j - x ! i ! j)
                                                  * (hl ! k - x ! i ! j))))"
      by (rule np_interp_at[OF r])
    have s: "\<And>k. sorted (x ! i) \<Longrightarrow> k < length hl \<Longrightarrow>
                       (hl ! k < hd (x ! i) \<longrightarrow> arr ! i ! k = hd (y ! i))
                     \<and> (last (x ! i) \<le> hl ! k \<longrightarrow> arr ! i ! k = last (y ! i))
                     \<and> (\<forall>j. Suc j < length (x ! i) \<and> x ! i ! j \<le> hl ! k \<and> hl ! k < x ! i ! Suc j \<longrightarrow>
                            arr ! i ! k =
                              y ! i ! j + (y ! i ! Suc j - y ! i ! j) / (x ! i ! Suc j - x ! i ! j)
                                            * (hl ! k - x ! i ! j))"
      by (rule np_interp_sorted[OF r])
    show ?thesis using r l g s by blast
  qed
  then show ?thesis using a rows(1) by blast
qed

text \<open>
  The profile with abscissa \<open>[500, 1500, 2500]\<close> and ordinates \<open>[10, 5, 0]\<close>: height 0
  gives 10, height 3000 gives 0 and height 1000 gives 7.5.
\<close>

theorem interpolate_rowwise_clamped_linear_witness:
  "\<exists>arr. interpolate [[500, 1500, 2500]] [[10, 5, 0]] [0, 3000, 1000] = Inr arr
      \<and> arr ! 0 ! 0 = 10 \<and> arr ! 0 ! 1 = 0 \<and> arr ! 0 ! 2 = 7.5"
proof -
  let ?x = "[[500, 1500, 2500::real]]" and ?y = "[[10, 5, 0::real]]"
  let ?hl = "[0, 3000, 1000::real]"
  have "length ?x \<le> length ?y"
    and "\<forall>i < length ?x. ?x ! i \<noteq> [] \<and> length (?y ! i) = length (?x ! i)"
    by simp_all
  from interpolate_rowwise_clamped_linear[OF this, of ?hl]
  obtain arr where a: "interpolate ?x ?y ?hl = Inr arr"
    and p: "\<forall>k < 3.
              (?hl ! k < 500 \<longrightarrow> arr ! 0 ! k = 10)
            \<and> (2500 \<le> ?hl ! k \<longrightarrow> arr ! 0 ! k = 0)
            \<and> (\<forall>j. Suc j < 3 \<and> [500, 1500, 2500] ! j \<le> ?hl ! k \<and> ?hl ! k < [500, 1500, 2500] ! Suc j \<longrightarrow>
                   arr ! 0 ! k = [10, 5, 0] ! j + ([10, 5, 0] ! Suc j - [10, 5, 0] ! j)
                                    / ([500, 1500, 2500] ! Suc j - [500, 1500, 2500] ! j)
                                    * (?hl ! k - [500, 1500, 2500] ! j))"
    by auto
  have "arr ! 0 ! 0 = 10" using p[rule_format, of 0] by simp
  moreover have "arr ! 0 ! 1 = 0" using p[rule_format, of 1] by simp
  moreover have "arr ! 0 ! 2 = 7.5"
    using p[rule_format, of 2] by (auto dest!: spec[of _ 0])
  ultimately show ?thesis using a by blast
qed

text \<open>
  The same profile listed from the top down is not interpolated that way: the ends are the
  first and the last sample, not the lowest and the highest, so the heights 0, 1000 and 3000
  give 0, 10 and 10 where clamped piecewise-linear interpolation gives 10, 7.5 and 0.
\<close>

theorem interpolate_descending_profile:
  "interpolate [[2500, 1500, 500]] [[0, 5, 10]] [0, 1000, 3000] = Inr [[0, 10, 10]]
     \<and> [[0, 10, 10]] \<noteq> [[10, 7.5, 0::real]]"
  by (simp add: np_interp_def interp_value_def binary_search_with_guess_def)

subsection \<open>Grid reconstruction (claims C5, C7, C10)\<close>

lemma argmax_scan_first_max:
  assumes "length pre = i" and "idx < i" and "pre ! idx = mp"
      and "\<forall>j < i. pre ! j \<le> mp" and "\<forall>j < idx. pre ! j < mp"
  shows "argmax_scan mp idx i vs < length (pre @ vs)
       \<and> (\<forall>j < length (pre @ vs). (pre @ vs) ! j \<le> (pre @ vs) ! argmax_scan mp idx i vs)
       \<and> (\<forall>j < argmax_scan mp idx i vs. (pre @ vs) ! j < (pre @ vs) ! argmax_scan mp idx i vs)"
  using assms
proof (induction vs arbitrary: pre i idx mp)
  case Nil
  then show ?case by auto
next
  case (Cons v vs)
  show ?case
  proof (cases "v > mp")
    case True
    have "argmax_scan v i (Suc i) vs < length ((pre @ [v]) @ vs)
       \<and> (\<forall>j < length ((pre @ [v]) @ vs). ((pre @ [v]) @ vs) ! j \<le> ((pre @ [v]) @ vs) ! argmax_scan v i (Suc i) vs)
       \<and> (\<forall>j < argmax_scan v i (Suc i) vs. ((pre @ [v]) @ vs) ! j < ((pre @ [v]) @ vs) ! argmax_scan v i (Suc i) vs)"
    proof (rule Cons.IH)
      show "length (pre @ [v]) = Suc i" using Cons.prems(1) by simp
      show "i < Suc i" by simp
      show "(pre @ [v]) ! i = v" using Cons.prems(1) by (simp add: nth_append)
      show "\<forall>j < Suc i. (pre @ [v]) ! j \<le> v"
        using Cons.prems(1,4) True by (auto simp: nth_append less_Suc_eq dest: spec)
      show "\<forall>j < i. (pre @ [v]) ! j < v"
        using Cons.prems(1,4) True by (auto simp: nth_append intro: le_less_trans)
    qed
    then show ?thesis using True by simp
  next
    case False
    have "argmax_scan mp idx (Suc i) vs < length ((pre @ [v]) @ vs)
       \<and> (\<forall>j < length ((pre @ [v]) @ vs). ((pre @ [v]) @ vs) ! j \<le> ((pre @ [v]) @ vs) ! argmax_scan mp idx (Suc i) vs)
       \<and> (\<forall>j < argmax_scan mp idx (Suc i) vs. ((pre @ [v]) @ vs) ! j < ((pre @ [v]) @ vs) ! argmax_scan mp idx (Suc i) vs)"
    proof (rule Cons.IH)
      show "length (pre @ [v]) = Suc i" using Cons.prems(1) by simp
      show "idx < Suc i" using Cons.prems(2) by simp
      show "(pre @ [v]) ! idx = mp" using Cons.prems(1,2,3) by (simp add: nth_append)
      show "\<forall>j < Suc i. (pre @ [v]) ! j \<le> mp"
        using Cons.prems(1,4) False by (auto simp: nth_append less_Suc_eq)
      show "\<forall>j < idx. (pre @ [v]) ! j < mp"
        using Cons.prems(1,2,5) by (auto simp: nth_append)
    qed
    then show ?thesis using False by simp
  qed
qed

lemma np_argmax_first_max:
  assumes "xs \<noteq> []"
  shows "np_argmax xs < length xs
       \<and> (\<forall>j < length xs. xs ! j \<le> xs ! np_argmax xs)
       \<and> (\<forall>j < np_argmax xs. xs ! j < xs ! np_argmax xs)"
proof -
  obtain v vs where xs: "xs = v # vs" using assms by (cases xs) auto
  have "argmax_scan v 0 1 vs < length ([v] @ vs)
       \<and> (\<forall>j < length ([v] @ vs). ([v] @ vs) ! j \<le> ([v] @ vs) ! argmax_scan v 0 1 vs)
       \<and> (\<forall>j < argmax_scan v 0 1 vs. ([v] @ vs) ! j < ([v] @ vs) ! argmax_scan v 0 1 vs)"
    by (rule argmax_scan_first_max) auto
  then show ?thesis by (simp add: xs np_argmax_def)
qed

lemma reshape3_nth:
  assumes "reshape3 R C k rows = Inr g" and "0 < k"
  shows "length rows = R * C" and "length g = R"
    and "r < R \<Longrightarrow> length (g ! r) = C"
    and "r < R \<Longrightarrow> c < C \<Longrightarrow> g ! r ! c = rows ! (r * C + c)"
proof -
  from assms have len: "length rows = R * C" and g: "g = map (\<lambda>r. take C (drop (r * C) rows)) [0 ..< R]"
    by (auto simp: reshape3_def split: if_splits)
  show "length rows = R * C" by (rule len)
  show "length g = R" by (simp add: g)
  { assume r: "r < R"
    have "r * C + C \<le> R * C"
    proof -
      have "Suc r * C \<le> R * C" using r by (intro mult_le_mono1) simp
      then show ?thesis by (simp add: add.commute)
    qed
    then show "length (g ! r) = C" using r len by (simp add: g)
    { assume c: "c < C"
      show "g ! r ! c = rows ! (r * C + c)"
        using r c \<open>r * C + C \<le> R * C\<close> len by (simp add: g) } }
qed

lemma ravel_nth:
  assumes "list_all (\<lambda>row. length row = C) g" and "r < length g" and "c < C"
  shows "ravel g ! (r * C + c) = g ! r ! c"
  using assms
proof (induction g arbitrary: r)
  case Nil
  then show ?case by simp
next
  case (Cons a g)
  show ?case
  proof (cases r)
    case 0
    then show ?thesis using Cons.prems by (simp add: ravel_def nth_append)
  next
    case (Suc r')
    have "ravel g ! (r' * C + c) = g ! r' ! c"
      using Cons.IH[of r'] Cons.prems Suc by simp
    then show ?thesis using Cons.prems Suc by (simp add: ravel_def nth_append)
  qed
qed

lemma ravel_length:
  "list_all (\<lambda>row. length row = C) g \<Longrightarrow> length (ravel g) = length g * C"
  by (induction g) (auto simp: ravel_def)

lemma cast_uint8_other:
  "n \<noteq> var \<Longrightarrow> data_vars (cast_uint8 nc d var) n = data_vars d n"
  by (simp add: cast_uint8_def split: option.splits)

lemma cast_uint8_dims:
  "dim_y (cast_uint8 nc d var) = dim_y d" "dim_x (cast_uint8 nc d var) = dim_x d"
  "coords (cast_uint8 nc d var) = coords d"
  by (simp_all add: cast_uint8_def split: option.splits)

lemma less4_cases: "i < (4::nat) \<Longrightarrow> i = 0 \<or> i = 1 \<or> i = 2 \<or> i = 3"
  by arith

lemma ml_loop_ptypes_vars:
  assumes "4 \<le> k" and "i < 4"
  shows "\<exists>d1. ml_loop nc k resh d ptypes = Inr d1
          \<and> dim_y d1 = dim_y d \<and> dim_x d1 = dim_x d \<and> coords d1 = coords d
          \<and> map_option vals (data_vars d1 (ml_name i)) = Some (Grid2 (map (map (\<lambda>p. to_float32 nc (p ! i))) resh))
          \<and> map_option vals (data_vars d1 (ml_cname i)) = Some (Grid2 (categorical resh i))
          \<and> map_option dtype (data_vars d1 (ml_name i)) = Some Float32
          \<and> map_option dtype (data_vars d1 (ml_cname i)) = Some UInt8"
  using assms(1) less4_cases[OF assms(2)]
  by (auto simp: ptypes_def assign_ml_def channel_def ml_name_def ml_cname_def)

lemma hstack_ptype_length:
  "length (hstack_ptype rows (map f rows)) = length rows"
  by (simp add: hstack_ptype_def)

lemma hstack_ptype_nth:
  "n < length rows \<Longrightarrow> hstack_ptype rows (map f rows) ! n = rows ! n @ [real (f (rows ! n))]"
  by (simp add: hstack_ptype_def)

lemma reshape3_Suc:
  "reshape3 R C (Suc k) rows =
     (if length rows = R * C then Inr (map (\<lambda>r. take C (drop (r * C) rows)) [0 ..< R])
      else Inl ValueError)"
proof -
  have "(length rows * Suc k = R * C * Suc k) = (length rows = R * C)"
    using mult_cancel2[of "length rows" "Suc k" "R * C"] by (simp del: mult_Suc_right)
  then show ?thesis by (simp only: reshape3_def)
qed

lemma grid_predictions_shape_error:
  assumes "length (t_rows preds) \<noteq> dim_y data * dim_x data"
  shows "grid_predictions nc data preds = Inl ValueError"
  using assms
  by (simp add: grid_predictions_def argmax_axis1_def reshape3_Suc hstack_ptype_length)

lemma grid_predictions_fields:
  assumes k: "3 \<le> n_cols preds" and n: "length (t_rows preds) = dim_y data * dim_x data"
      and i: "i < 4"
  shows "\<exists>d' resh. grid_predictions nc data preds = Inr (d', drop_levels d')
          \<and> reshape3 (dim_y data) (dim_x data) (n_cols preds + 1)
               (hstack_ptype (t_rows preds) (map np_argmax (t_rows preds))) = Inr resh
          \<and> map_option vals (data_vars d' (ml_name i)) = Some (Grid2 (map (map (\<lambda>p. to_float32 nc (p ! i))) resh))
          \<and> map_option vals (data_vars d' (ml_cname i)) = Some (Grid2 (categorical resh i))"
proof -
  let ?hs = "hstack_ptype (t_rows preds) (map np_argmax (t_rows preds))"
  obtain resh where r: "reshape3 (dim_y data) (dim_x data) (n_cols preds + 1) ?hs = Inr resh"
    using n by (simp add: reshape3_Suc hstack_ptype_length)
  have a: "argmax_axis1 preds = Inr (map np_argmax (t_rows preds))"
    using k by (simp add: argmax_axis1_def)
  obtain d1 where d1: "ml_loop nc (n_cols preds + 1) resh data ptypes = Inr d1"
    and v: "map_option vals (data_vars d1 (ml_name i)) = Some (Grid2 (map (map (\<lambda>p. to_float32 nc (p ! i))) resh))"
           "map_option vals (data_vars d1 (ml_cname i)) = Some (Grid2 (categorical resh i))"
    using ml_loop_ptypes_vars[of "n_cols preds + 1" i nc resh data] k i by auto
  let ?d2 = "fold (\<lambda>var d. cast_uint8 nc d var) [''crain'', ''csnow'', ''cicep'', ''cfrzr''] d1"
  have ne: "ml_name i \<notin> set [''crain'', ''csnow'', ''cicep'', ''cfrzr'']"
           "ml_cname i \<notin> set [''crain'', ''csnow'', ''cicep'', ''cfrzr'']"
    using less4_cases[OF i] by (auto simp: ml_name_def ml_cname_def ptypes_def)
  have keep: "data_vars ?d2 (ml_name i) = data_vars d1 (ml_name i)"
             "data_vars ?d2 (ml_cname i) = data_vars d1 (ml_cname i)"
    using ne by (simp_all add: cast_uint8_other)
  have g: "grid_predictions nc data preds = Inr (cast_coords nc ?d2, drop_levels (cast_coords nc ?d2))"
    using r d1 by (simp add: grid_predictions_def a Let_def)
  show ?thesis
    using g r v keep by (intro exI[of _ "cast_coords nc ?d2"] exI[of _ resh]) (simp add: cast_coords_def)
qed

lemma drop_levels_vars: "data_vars (drop_levels d) = data_vars d"
  by (simp add: drop_levels_def)

lemma grid_value_drop_levels: "grid_value (drop_levels d) name r c = grid_value d name r c"
  by (simp add: grid_value_def drop_levels_vars)

lemma grid_value_Grid2:
  assumes "map_option vals (data_vars d name) = Some (Grid2 g)"
      and "r < length g" and "c < length (g ! r)"
  shows "grid_value d name r c = Some (g ! r ! c)"
  using assms by (auto simp: grid_value_def split: option.splits)

lemma grid_predictions_total:
  assumes "3 \<le> n_cols preds" and "length (t_rows preds) = dim_y data * dim_x data"
  shows "\<exists>d'. grid_predictions nc data preds = Inr (d', drop_levels d')"
  using grid_predictions_fields[OF assms, of 0] by auto

lemma grid_predictions_cell:
  assumes g: "grid_predictions nc data preds = Inr (d', ret)"
      and k: "3 \<le> n_cols preds" and i: "i < 4"
      and r: "r < dim_y data" and c: "c < dim_x data"
  shows "grid_value ret (ml_cname i) r c =
           Some (if np_argmax (t_rows preds ! (r * dim_x data + c)) = i then 1 else 0)"
    and "grid_value ret (ml_name i) r c =
           Some (to_float32 nc ((t_rows preds ! (r * dim_x data + c) @
                    [real (np_argmax (t_rows preds ! (r * dim_x data + c)))]) ! i))"
    and "grid_value d' (ml_cname i) r c = grid_value ret (ml_cname i) r c"
    and "grid_value d' (ml_name i) r c = grid_value ret (ml_name i) r c"
proof -
  let ?hs = "hstack_ptype (t_rows preds) (map np_argmax (t_rows preds))"
  let ?R = "dim_y data" and ?C = "dim_x data"
  have n: "length (t_rows preds) = ?R * ?C"
    using g grid_predictions_shape_error[of preds data nc] by fastforce
  obtain d'' resh where
    g': "grid_predictions nc data preds = Inr (d'', drop_levels d'')" and
    rs: "reshape3 ?R ?C (n_cols preds + 1) ?hs = Inr resh" and
    vp: "map_option vals (data_vars d'' (ml_name i)) = Some (Grid2 (map (map (\<lambda>p. to_float32 nc (p ! i))) resh))" and
    vc: "map_option vals (data_vars d'' (ml_cname i)) = Some (Grid2 (categorical resh i))"
    using grid_predictions_fields[OF k n i] by blast
  from g g' have d: "d'' = d'" and ret: "ret = drop_levels d'" by auto
  note sh = reshape3_nth[OF rs]
  have lr: "length resh = ?R" using sh(2) by simp
  have lc: "length (resh ! r) = ?C" using sh(3) r by simp
  have idx: "r * ?C + c < length (t_rows preds)"
  proof -
    have "r * ?C + c < r * ?C + ?C" using c by simp
    also have "\<dots> = Suc r * ?C" by simp
    also have "\<dots> \<le> ?R * ?C" using r by (intro mult_le_mono1) simp
    finally show ?thesis using n by simp
  qed
  have cell: "resh ! r ! c = t_rows preds ! (r * ?C + c) @
                 [real (np_argmax (t_rows preds ! (r * ?C + c)))]"
    using sh(4)[OF _ r c] idx by (simp add: hstack_ptype_nth)
  have "grid_value d' (ml_cname i) r c = Some (categorical resh i ! r ! c)"
    using vc lr lc r c unfolding d
    by (intro grid_value_Grid2) (simp_all add: categorical_def)
  then show c1: "grid_value ret (ml_cname i) r c =
           Some (if np_argmax (t_rows preds ! (r * ?C + c)) = i then 1 else 0)"
    using lr lc r c cell by (simp add: ret grid_value_drop_levels categorical_def)
  have "grid_value d' (ml_name i) r c =
          Some (map (map (\<lambda>p. to_float32 nc (p ! i))) resh ! r ! c)"
    using vp lr lc r c unfolding d
    by (intro grid_value_Grid2) simp_all
  then show "grid_value ret (ml_name i) r c =
           Some (to_float32 nc ((t_rows preds ! (r * ?C + c)
                   @ [real (np_argmax (t_rows preds ! (r * ?C + c)))]) ! i))"
    using lr lc r c cell by (simp add: ret grid_value_drop_levels)
  show "grid_value d' (ml_cname i) r c = grid_value ret (ml_cname i) r c"
       "grid_value d' (ml_name i) r c = grid_value ret (ml_name i) r c"
    by (simp_all add: ret grid_value_drop_levels)
qed

lemma table_row:
  assumes "wf_table preds" and "n < length (t_rows preds)"
  shows "length (t_rows preds ! n) = n_cols preds"
  using assms by (simp add: wf_table_def list_all_length)

lemma cell_index:
  assumes "r < R" and "c < (C::nat)"
  shows "r * C + c < R * C"
proof -
  have "r * C + c < Suc r * C" using assms(2) by simp
  also have "\<dots> \<le> R * C" using assms(1) by (intro mult_le_mono1) simp
  finally show ?thesis .
qed

text \<open>
  Claim C7. When the number of rows of the prediction table differs from
  \<open>rows \<times> columns\<close> of the grid, the call itself fails: \<^verbatim>\<open>reshape\<close> raises numpy's
  \<^verbatim>\<open>ValueError\<close> (the shape error of the specification) before anything is stored.
\<close>

theorem grid_predictions_row_count_mismatch:
  assumes "length (t_rows preds) \<noteq> dim_y data * dim_x data"
  shows "grid_predictions nc data preds = Inl ValueError"
  using assms by (rule grid_predictions_shape_error)

text \<open>
  A table of 99 rows against a grid of shape \<open>(10, 10)\<close>.
\<close>

theorem grid_predictions_row_count_mismatch_witness:
  "length (t_rows \<lparr>n_cols = 4, t_rows = replicate 99 [1/4, 1/4, 1/4, 1/4]\<rparr>) \<noteq>
      dim_y \<lparr>dim_y = 10, dim_x = 10, data_vars = Map.empty, coords = []\<rparr>
        * dim_x \<lparr>dim_y = 10, dim_x = 10, data_vars = Map.empty, coords = []\<rparr>
   \<and> (\<forall>nc. grid_predictions nc \<lparr>dim_y = 10, dim_x = 10, data_vars = Map.empty, coords = []\<rparr>
        \<lparr>n_cols = 4, t_rows = replicate 99 [1/4, 1/4, 1/4, 1/4]\<rparr> = Inl ValueError)"
  using grid_predictions_row_count_mismatch
          [of "\<lparr>n_cols = 4, t_rows = replicate 99 [1/4, 1/4, 1/4, 1/4]\<rparr>"
              "\<lparr>dim_y = 10, dim_x = 10, data_vars = Map.empty, coords = []\<rparr>"]
  by simp

text \<open>
  Claim C5. On a well-formed table with at least three columns and one row per grid point
  the call succeeds, and at every point \<open>(r, c)\<close> the class index of row
  \<open>r * columns + c\<close> is the first index that attains the row maximum: no entry exceeds
  it and every earlier entry is strictly smaller. The indicator field of class \<open>i\<close> is 1
  at the point exactly when that index is \<open>i\<close>, and 0 otherwise.
\<close>

theorem grid_predictions_argmax_first:
  assumes "wf_table preds" and "3 \<le> n_cols preds"
      and "length (t_rows preds) = dim_y data * dim_x data"
  shows "\<exists>d' ret. grid_predictions nc data preds = Inr (d', ret)
           \<and> (\<forall>r < dim_y data. \<forall>c < dim_x data.
                 np_argmax (t_rows preds ! (r * dim_x data + c)) < n_cols preds
               \<and> (\<forall>j < n_cols preds.
                     t_rows preds ! (r * dim_x data + c) ! j
                       \<le> t_rows preds ! (r * dim_x data + c) ! np_argmax (t_rows preds ! (r * dim_x data + c)))
               \<and> (\<forall>j < np_argmax (t_rows preds ! (r * dim_x data + c)).
                     t_rows preds ! (r * dim_x data + c) ! j
                       < t_rows preds ! (r * dim_x data + c) ! np_argmax (t_rows preds ! (r * dim_x data + c)))
               \<and> (\<forall>i < 4. grid_value ret (ml_cname i) r c =
                     Some (if np_argmax (t_rows preds ! (r * dim_x data + c)) = i then 1 else 0)))"
proof -
  obtain d' where g: "grid_predictions nc data preds = Inr (d', drop_levels d')"
    using grid_predictions_total[OF assms(2,3)] by blast
  have "\<forall>r < dim_y data. \<forall>c < dim_x data.
                 np_argmax (t_rows preds ! (r * dim_x data + c)) < n_cols preds
               \<and> (\<forall>j < n_cols preds.
                     t_rows preds ! (r * dim_x data + c) ! j
                       \<le> t_rows preds ! (r * dim_x data + c) ! np_argmax (t_rows preds ! (r * dim_x data + c)))
               \<and> (\<forall>j < np_argmax (t_rows preds ! (r * dim_x data + c)).
                     t_rows preds ! (r * dim_x data + c) ! j
                       < t_rows preds ! (r * dim_x data + c) ! np_argmax (t_rows preds ! (r * dim_x data + c)))
               \<and> (\<forall>i < 4. grid_value (drop_levels d') (ml_cname i) r c =
                     Some (if np_argmax (t_rows preds ! (r * dim_x data + c)) = i then 1 else 0))"
  proof (intro conjI allI impI)
    fix r c assume r: "r < dim_y data" and c: "c < dim_x data"
    let ?row = "t_rows preds ! (r * dim_x data + c)"
    have "r * dim_x data + c < length (t_rows preds)"
      using cell_index[OF r c] assms(3) by simp
    then have len: "length ?row = n_cols preds" by (rule table_row[OF assms(1)])
    then have ne: "?row \<noteq> []" using assms(2) by auto
    note am = np_argmax_first_max[OF ne]
    show "np_argmax ?row < n_cols preds" using am len by simp
    { fix j assume "j < n_cols preds"
      then show "?row ! j \<le> ?row ! np_argmax ?row" using am len by simp }
    { fix j assume "j < np_argmax ?row"
      then show "?row ! j < ?row ! np_argmax ?row" using am by simp }
    { fix i :: nat assume "i < 4"
      then show "grid_value (drop_levels d') (ml_cname i) r c =
                   Some (if np_argmax ?row = i then 1 else 0)"
        using grid_predictions_cell(1)[OF g assms(2) _ r c] by simp }
  qed
  with g show ?thesis by blast
qed

lemma ml_names:
  "ml_name 0 = ''ML_rain''" "ml_name 1 = ''ML_snow''" "ml_name 2 = ''ML_icep''" "ml_name 3 = ''ML_frzr''"
  "ml_cname 0 = ''ML_crain''" "ml_cname 1 = ''ML_csnow''" "ml_cname 2 = ''ML_cicep''" "ml_cname 3 = ''ML_cfrzr''"
  "ml_name (Suc 0) = ''ML_snow''" "ml_cname (Suc 0) = ''ML_csnow''"
  by (simp_all add: ml_name_def ml_cname_def ptypes_def)

text \<open>
  The probabilities \<open>[0.5, 0.5, 0, 0]\<close> select class 0: rain is marked, the others not.
\<close>

theorem grid_predictions_argmax_first_witness:
  "\<forall>nc. \<exists>d' ret.
      grid_predictions nc \<lparr>dim_y = 1, dim_x = 2, data_vars = Map.empty, coords = []\<rparr>
                \<lparr>n_cols = 4, t_rows = [[1/2, 1/2, 0, 0], [0, 1/4, 3/4, 0]]\<rparr> = Inr (d', ret)
      \<and> np_argmax [1/2, 1/2, 0, 0] = 0
      \<and> grid_value ret ''ML_crain'' 0 0 = Some 1 \<and> grid_value ret ''ML_csnow'' 0 0 = Some 0
      \<and> grid_value ret ''ML_cicep'' 0 0 = Some 0 \<and> grid_value ret ''ML_cfrzr'' 0 0 = Some 0"
proof
  fix nc
  let ?D = "\<lparr>dim_y = 1, dim_x = 2, data_vars = Map.empty, coords = []\<rparr>"
  let ?P = "\<lparr>n_cols = 4, t_rows = [[1/2, 1/2, 0, 0], [0, 1/4, 3/4, 0::real]]\<rparr>"
  have h: "wf_table ?P" "3 \<le> n_cols ?P" "length (t_rows ?P) = dim_y ?D * dim_x ?D"
    by (simp_all add: wf_table_def)
  from grid_predictions_argmax_first[OF h, of nc] obtain d' ret where
    g: "grid_predictions nc ?D ?P = Inr (d', ret)" and
    b: "\<And>r c i. r < dim_y ?D \<Longrightarrow> c < dim_x ?D \<Longrightarrow> i < 4 \<Longrightarrow>
          grid_value ret (ml_cname i) r c =
            Some (if np_argmax (t_rows ?P ! (r * dim_x ?D + c)) = i then 1 else 0)"
    by blast
  have a: "np_argmax [1/2, 1/2, 0, 0] = 0" by (simp add: np_argmax_def)
  have "grid_value ret ''ML_crain'' 0 0 = Some 1" using b[of 0 0 0] a by (simp add: ml_names)
  moreover have "grid_value ret ''ML_csnow'' 0 0 = Some 0" using b[of 0 0 1] a by (simp add: ml_names)
  moreover have "grid_value ret ''ML_cicep'' 0 0 = Some 0" using b[of 0 0 2] a by (simp add: ml_names)
  moreover have "grid_value ret ''ML_cfrzr'' 0 0 = Some 0" using b[of 0 0 3] a by (simp add: ml_names)
  ultimately show "\<exists>d' ret.
      grid_predictions nc \<lparr>dim_y = 1, dim_x = 2, data_vars = Map.empty, coords = []\<rparr>
                \<lparr>n_cols = 4, t_rows = [[1/2, 1/2, 0, 0], [0, 1/4, 3/4, 0]]\<rparr> = Inr (d', ret)
      \<and> np_argmax [1/2, 1/2, 0, 0] = 0
      \<and> grid_value ret ''ML_crain'' 0 0 = Some 1 \<and> grid_value ret ''ML_csnow'' 0 0 = Some 0
      \<and> grid_value ret ''ML_cicep'' 0 0 = Some 0 \<and> grid_value ret ''ML_cfrzr'' 0 0 = Some 0"
    using g a by blast
qed

text \<open>
  Claim C10. With four probability columns and one row per grid point, at every point
  exactly one of \<^verbatim>\<open>ML_crain\<close>, \<^verbatim>\<open>ML_csnow\<close>, \<^verbatim>\<open>ML_cicep\<close>, \<^verbatim>\<open>ML_cfrzr\<close>
  is 1 and the other three are 0.
\<close>

theorem grid_predictions_categorical_partition:
  assumes "wf_table preds" and "n_cols preds = 4"
      and "length (t_rows preds) = dim_y data * dim_x data"
  shows "\<exists>d' ret. grid_predictions nc data preds = Inr (d', ret)
           \<and> (\<forall>r < dim_y data. \<forall>c < dim_x data.
                 (grid_value ret ''ML_crain'' r c, grid_value ret ''ML_csnow'' r c,
                  grid_value ret ''ML_cicep'' r c, grid_value ret ''ML_cfrzr'' r c)
                 \<in> {(Some 1, Some 0, Some 0, Some 0), (Some 0, Some 1, Some 0, Some 0),
                     (Some 0, Some 0, Some 1, Some 0), (Some 0, Some 0, Some 0, Some 1)})"
proof -
  have k: "3 \<le> n_cols preds" using assms(2) by simp
  obtain d' where g: "grid_predictions nc data preds = Inr (d', drop_levels d')"
    using grid_predictions_total[OF k assms(3)] by blast
  have "\<forall>r < dim_y data. \<forall>c < dim_x data.
                 (grid_value (drop_levels d') ''ML_crain'' r c, grid_value (drop_levels d') ''ML_csnow'' r c,
                  grid_value (drop_levels d') ''ML_cicep'' r c, grid_value (drop_levels d') ''ML_cfrzr'' r c)
                 \<in> {(Some 1, Some 0, Some 0, Some 0), (Some 0, Some 1, Some 0, Some 0),
                     (Some 0, Some 0, Some 1, Some 0), (Some 0, Some 0, Some 0, Some 1)}"
  proof (intro allI impI)
    fix r c assume r: "r < dim_y data" and c: "c < dim_x data"
    let ?row = "t_rows preds ! (r * dim_x data + c)"
    have "r * dim_x data + c < length (t_rows preds)"
      using cell_index[OF r c] assms(3) by simp
    then have len: "length ?row = n_cols preds" by (rule table_row[OF assms(1)])
    then have "?row \<noteq> []" using assms(2) by auto
    then have "np_argmax ?row < 4" using np_argmax_first_max[of ?row] len assms(2) by simp
    then have cases: "np_argmax ?row = 0 \<or> np_argmax ?row = 1 \<or> np_argmax ?row = 2 \<or> np_argmax ?row = 3"
      by (rule less4_cases)
    note v = grid_predictions_cell(1)[OF g k _ r c]
    have "grid_value (drop_levels d') ''ML_crain'' r c = Some (if np_argmax ?row = 0 then 1 else 0)"
         "grid_value (drop_levels d') ''ML_csnow'' r c = Some (if np_argmax ?row = 1 then 1 else 0)"
         "grid_value (drop_levels d') ''ML_cicep'' r c = Some (if np_argmax ?row = 2 then 1 else 0)"
         "grid_value (drop_levels d') ''ML_cfrzr'' r c = Some (if np_argmax ?row = 3 then 1 else 0)"
      using v[of 0] v[of 1] v[of 2] v[of 3] by (simp_all add: ml_names)
    then show "(grid_value (drop_levels d') ''ML_crain'' r c, grid_value (drop_levels d') ''ML_csnow'' r c,
                  grid_value (drop_levels d') ''ML_cicep'' r c, grid_value (drop_levels d') ''ML_cfrzr'' r c)
                 \<in> {(Some 1, Some 0, Some 0, Some 0), (Some 0, Some 1, Some 0, Some 0),
                     (Some 0, Some 0, Some 1, Some 0), (Some 0, Some 0, Some 0, Some 1)}"
      using cases by auto
  qed
  with g show ?thesis by blast
qed

text \<open>
  The second point of a \<open>1 \<times> 2\<close> grid, whose row is \<open>[0, 0.25, 0.75, 0]\<close>.
\<close>

theorem grid_predictions_categorical_partition_witness:
  "\<forall>nc. \<exists>d' ret.
      grid_predictions nc \<lparr>dim_y = 1, dim_x = 2, data_vars = Map.empty, coords = []\<rparr>
                \<lparr>n_cols = 4, t_rows = [[1/2, 1/2, 0, 0], [0, 1/4, 3/4, 0]]\<rparr> = Inr (d', ret)
      \<and> (grid_value ret ''ML_crain'' 0 1, grid_value ret ''ML_csnow'' 0 1,
          grid_value ret ''ML_cicep'' 0 1, grid_value ret ''ML_cfrzr'' 0 1)
        \<in> {(Some 1, Some 0, Some 0, Some 0), (Some 0, Some 1, Some 0, Some 0),
            (Some 0, Some 0, Some 1, Some 0), (Some 0, Some 0, Some 0, Some 1)}"
proof
  fix nc
  let ?D = "\<lparr>dim_y = 1, dim_x = 2, data_vars = Map.empty, coords = []\<rparr>"
  let ?P = "\<lparr>n_cols = 4, t_rows = [[1/2, 1/2, 0, 0], [0, 1/4, 3/4, 0::real]]\<rparr>"
  have h: "wf_table ?P" "n_cols ?P = 4" "length (t_rows ?P) = dim_y ?D * dim_x ?D"
    by (simp_all add: wf_table_def)
  from grid_predictions_categorical_partition[OF h, of nc] obtain d' ret where
    g: "grid_predictions nc ?D ?P = Inr (d', ret)" and
    b: "\<And>r c. r < dim_y ?D \<Longrightarrow> c < dim_x ?D \<Longrightarrow>
          (grid_value ret ''ML_crain'' r c, grid_value ret ''ML_csnow'' r c,
           grid_value ret ''ML_cicep'' r c, grid_value ret ''ML_cfrzr'' r c)
          \<in> {(Some 1, Some 0, Some 0, Some 0), (Some 0, Some 1, Some 0, Some 0),
              (Some 0, Some 0, Some 1, Some 0), (Some 0, Some 0, Some 0, Some 1)}"
    by blast
  from b[of 0 1] g show "\<exists>d' ret.
      grid_predictions nc ?D ?P = Inr (d', ret)
      \<and> (grid_value ret ''ML_crain'' 0 1, grid_value ret ''ML_csnow'' 0 1,
          grid_value ret ''ML_cicep'' 0 1, grid_value ret ''ML_cfrzr'' 0 1)
        \<in> {(Some 1, Some 0, Some 0, Some 0), (Some 0, Some 1, Some 0, Some 0),
            (Some 0, Some 0, Some 1, Some 0), (Some 0, Some 0, Some 0, Some 1)}"
    by simp
qed

subsection \<open>Profile flattening (claim C6)\<close>

lemma flatten_levels_cols:
  assumes "data_vars ds v = Some var" and "vals var = Grid3 gs"
  shows "flatten_levels ds v lv ps =
           Inr (map (\<lambda>p. (col_name v p, reshape_column (sel_level lv gs p))) ps)"
  using assms by (induction ps) simp_all

lemma sel_level_distinct:
  assumes "distinct lv" and "length gs = length lv" and "j < length lv"
  shows "sel_level lv gs (lv ! j) = [gs ! j]"
  using assms
proof (induction lv arbitrary: gs j)
  case Nil
  then show ?case by simp
next
  case (Cons a lv)
  then obtain g gs' where gs: "gs = g # gs'" by (cases gs) auto
  have none: "filter (\<lambda>qg. fst qg = a) (zip lv gs') = []"
    using Cons.prems(1) by (auto simp: filter_empty_conv dest: set_zip_leftD)
  show ?case
  proof (cases j)
    case 0
    then show ?thesis using none by (simp add: sel_level_def gs)
  next
    case (Suc n)
    then have n: "n < length lv" using Cons.prems(3) by simp
    then have "lv ! n \<noteq> a" using Cons.prems(1) by auto
    moreover have "sel_level lv gs' (lv ! n) = [gs' ! n]"
      using Cons.IH[of gs' n] Cons.prems(1,2) n gs by simp
    ultimately show ?thesis using Suc by (simp add: sel_level_def gs)
  qed
qed

lemma reshape_column_single: "reshape_column [g] = map (\<lambda>a. [a]) (ravel g)"
  by (simp add: reshape_column_def)

lemma wf_grid_ravel: "wf_grid ds g \<Longrightarrow> length (ravel g) = dim_y ds * dim_x ds"
  using ravel_length[of "dim_x ds" g] by (simp add: wf_grid_def)

lemma wf_level_varD:
  assumes "wf_level_var ds v"
  shows "\<exists>var. data_vars ds v = Some var \<and> vals var = Grid3 (grids_of ds v)"
    and "length (grids_of ds v) = length (levels_of ds)"
    and "list_all (wf_grid ds) (grids_of ds v)"
proof -
  from assms obtain var where v: "data_vars ds v = Some var"
    by (cases "data_vars ds v") (simp_all add: wf_level_var_def)
  from assms v obtain gs where g: "vals var = Grid3 gs"
    by (cases "vals var") (simp_all add: wf_level_var_def)
  have e: "grids_of ds v = gs" by (simp add: grids_of_def v g)
  show "\<exists>var. data_vars ds v = Some var \<and> vals var = Grid3 (grids_of ds v)"
    using v g e by simp
  show "length (grids_of ds v) = length (levels_of ds)"
    using assms v g e by (simp add: wf_level_var_def)
  show "list_all (wf_grid ds) (grids_of ds v)"
    using assms v g e by (simp add: wf_level_var_def)
qed

lemma map_by_index: "map f xs = map (\<lambda>j. f (xs ! j)) [0 ..< length xs]"
  by (rule nth_equalityI) simp_all

lemma flatten_levels_wf:
  assumes w: "wf_level_var ds v" and d: "distinct (levels_of ds)"
  shows "flatten_levels ds v (levels_of ds) (levels_of ds) =
           Inr (map (\<lambda>j. (col_name v (levels_of ds ! j),
                          map (\<lambda>a. [a]) (ravel (grids_of ds v ! j))))
                    [0 ..< length (levels_of ds)])"
proof -
  let ?lv = "levels_of ds" and ?gs = "grids_of ds v"
  from wf_level_varD[OF w] obtain var where
    v: "data_vars ds v = Some var" "vals var = Grid3 ?gs" and l: "length ?gs = length ?lv"
    by blast
  have "map (\<lambda>p. (col_name v p, reshape_column (sel_level ?lv ?gs p))) ?lv
          = map (\<lambda>j. (col_name v (?lv ! j), reshape_column (sel_level ?lv ?gs (?lv ! j))))
                [0 ..< length ?lv]"
    by (rule map_by_index)
  also have "\<dots> = map (\<lambda>j. (col_name v (?lv ! j), map (\<lambda>a. [a]) (ravel (?gs ! j))))
                [0 ..< length ?lv]"
    using sel_level_distinct[OF d l] by (simp add: reshape_column_single)
  finally show ?thesis using flatten_levels_cols[OF v] by simp
qed

lemma flatten_vars_wf:
  assumes c: "map_of (coords ds) ''isobaricInhPa'' \<noteq> None" and d: "distinct (levels_of ds)"
      and w: "list_all (wf_level_var ds) vs"
  shows "flatten_vars ds vs =
           Inr (map (\<lambda>c. (fst c, map (\<lambda>a. [a]) (snd c))) (flat_columns ds vs))"
  using w
proof (induction vs)
  case Nil
  then show ?case by (simp add: flat_columns_def)
next
  case (Cons v vs)
  from c obtain lvc where l: "map_of (coords ds) ''isobaricInhPa'' = Some lvc" by auto
  then have lv: "cvals lvc = levels_of ds" by (simp add: levels_of_def)
  have wv: "wf_level_var ds v" using Cons.prems by simp
  have r: "flatten_vars ds vs =
           Inr (map (\<lambda>c. (fst c, map (\<lambda>a. [a]) (snd c))) (flat_columns ds vs))"
    using Cons.IH Cons.prems by simp
  show ?case
    by (simp add: l lv flatten_levels_wf[OF wv d] r flat_columns_def comp_def)
qed

lemma flat_columns_lengths:
  assumes "list_all (wf_level_var ds) vs"
  shows "list_all (\<lambda>c. length (snd c) = dim_y ds * dim_x ds) (flat_columns ds vs)"
proof -
  have "length (ravel (grids_of ds v ! j)) = dim_y ds * dim_x ds"
    if "v \<in> set vs" and "j < length (levels_of ds)" for v j
  proof -
    have w: "wf_level_var ds v" using assms that(1) by (simp add: list_all_iff)
    have "wf_grid ds (grids_of ds v ! j)"
      using wf_level_varD(2,3)[OF w] that(2) by (simp add: list_all_length)
    then show ?thesis by (rule wf_grid_ravel)
  qed
  then show ?thesis by (auto simp: flat_columns_def list_all_iff)
qed

lemma concat_singletons: "concat (map (\<lambda>c. [f c]) cs) = map f cs"
  by (induction cs) simp_all

lemma dataframe_of_columns:
  assumes ne: "cols \<noteq> []" and len: "list_all (\<lambda>c. length (snd c) = n) cols"
  shows "(case concatenate_axis1 (map snd (map (\<lambda>c. (fst c, map (\<lambda>a. [a]) (snd c))) cols)) of
            Inl e \<Rightarrow> Inl e
          | Inr flat_data \<Rightarrow>
              Inr \<lparr>nrows = length flat_data,
                   columns = map (\<lambda>j. (fst (map (\<lambda>c. (fst c, map (\<lambda>a. [a]) (snd c))) cols ! j),
                                       map (\<lambda>row. row ! j) flat_data))
                                 [0 ..< length (map (\<lambda>c. (fst c, map (\<lambda>a. [a]) (snd c))) cols)]\<rparr>)
         = Inr \<lparr>nrows = n, columns = cols\<rparr>"
proof -
  let ?arrays = "map (\<lambda>c. map (\<lambda>a. [a]) (snd c)) cols"
  let ?flat = "map (\<lambda>i. map (\<lambda>c. snd c ! i) cols) [0 ..< n]"
  obtain a as where a: "?arrays = a # as" using ne by (cases cols) auto
  have la: "length a = n" using a len ne by (cases cols) auto
  have all: "list_all (\<lambda>b. length b = length a) as"
  proof -
    have "list_all (\<lambda>b. length b = n) ?arrays" using len by (simp add: list_all_iff)
    then show ?thesis using a la by simp
  qed
  have row: "concat (map (\<lambda>b. b ! i) ?arrays) = map (\<lambda>c. snd c ! i) cols" if "i < n" for i
  proof -
    have "map (\<lambda>b. b ! i) ?arrays = map (\<lambda>c. [snd c ! i]) cols"
      using len that by (auto simp: list_all_iff)
    then have "concat (map (\<lambda>b. b ! i) ?arrays) = concat (map (\<lambda>c. [snd c ! i]) cols)"
      by (rule arg_cong)
    also have "\<dots> = map (\<lambda>c. snd c ! i) cols" by (rule concat_singletons)
    finally show ?thesis .
  qed
  have cat: "concatenate_axis1 ?arrays = Inr ?flat"
  proof -
    have "concatenate_axis1 ?arrays =
            Inr (map (\<lambda>i. concat (map (\<lambda>b. b ! i) ?arrays)) [0 ..< length a])"
      using a all by (simp add: concatenate_axis1_def)
    then show ?thesis using row la by simp
  qed
  have col: "(fst (cols ! j), map (\<lambda>row. row ! j) ?flat) = cols ! j" if "j < length cols" for j
  proof -
    have l: "length (snd (cols ! j)) = n" using len that by (simp add: list_all_length)
    have "map (\<lambda>row. row ! j) ?flat = map (\<lambda>i. snd (cols ! j) ! i) [0 ..< n]"
      using that by simp
    also have "\<dots> = snd (cols ! j)" using l map_nth[of "snd (cols ! j)"] by simp
    finally show ?thesis by (simp add: prod_eq_iff)
  qed
  have cols: "map (\<lambda>j. (fst (cols ! j), map (\<lambda>row. row ! j) ?flat)) [0 ..< length cols] = cols"
    using col by (intro nth_equalityI) simp_all
  have m: "map snd (map (\<lambda>c. (fst c, map (\<lambda>a. [a]) (snd c))) cols) = ?arrays" by simp
  have f: "map (\<lambda>j. (fst (map (\<lambda>c. (fst c, map (\<lambda>a. [a]) (snd c))) cols ! j),
                       map (\<lambda>row. row ! j) ?flat))
               [0 ..< length (map (\<lambda>c. (fst c, map (\<lambda>a. [a]) (snd c))) cols)] = cols"
  proof -
    have "map (\<lambda>j. (fst (map (\<lambda>c. (fst c, map (\<lambda>a. [a]) (snd c))) cols ! j),
                       map (\<lambda>row. row ! j) ?flat))
               [0 ..< length (map (\<lambda>c. (fst c, map (\<lambda>a. [a]) (snd c))) cols)]
          = map (\<lambda>j. (fst (cols ! j), map (\<lambda>row. row ! j) ?flat)) [0 ..< length cols]"
      by (rule nth_equalityI) simp_all
    also have "\<dots> = cols" by (rule cols)
    finally show ?thesis .
  qed
  show ?thesis unfolding m cat using f by simp
qed

lemma df_flatten_columns:
  assumes c: "map_of (coords ds) ''isobaricInhPa'' \<noteq> None" and lv: "levels_of ds \<noteq> []"
      and d: "distinct (levels_of ds)" and ne: "varsP \<noteq> []"
      and w: "list_all (wf_level_var ds) varsP"
  shows "df_flatten ds varsP = Inr \<lparr>nrows = dim_y ds * dim_x ds, columns = flat_columns ds varsP\<rparr>"
proof -
  have cne: "flat_columns ds varsP \<noteq> []"
    using lv ne by (cases varsP) (auto simp: flat_columns_def upt_conv_Cons)
  show ?thesis
    unfolding df_flatten_def flatten_vars_wf[OF c d w]
    using dataframe_of_columns[OF cne flat_columns_lengths[OF w]] by simp
qed

lemma levels_present:
  "levels_of ds \<noteq> [] \<Longrightarrow> map_of (coords ds) ''isobaricInhPa'' \<noteq> None"
  by (auto simp: levels_of_def split: option.splits)


lemma example_dataset_facts:
  "levels_of example_dataset = [1000, 975.5]"
  "grids_of example_dataset ''t'' = [[[1, 2, 3], [4, 5, 6]], [[7, 8, 9], [10, 11, 12]]]"
  "grids_of example_dataset ''u'' = [[[21, 22, 23], [24, 25, 26]], [[27, 28, 29], [30, 31, 32]]]"
  "wf_level_var example_dataset ''t''" "wf_level_var example_dataset ''u''"
  "dim_y example_dataset = 2" "dim_x example_dataset = 3"
  by (simp_all add: example_dataset_def levels_of_def grids_of_def wf_level_var_def wf_grid_def)

lemma example_level_names:
  "str_int (py_int 1000) = ''1000''" "str_int (py_int 975.5) = ''975''"
  "str_int (py_int (1951 / 2)) = ''975''"
  by (simp_all add: str_int_def py_int_def)


subsection \<open>Flattening and reconstruction (claim C4)\<close>

lemma flat_columns_nth:
  assumes "a < length varsP" and "j < length (levels_of ds)"
  shows "flat_columns ds varsP ! (a * length (levels_of ds) + j) =
           (col_name (varsP ! a) (levels_of ds ! j), ravel (grids_of ds (varsP ! a) ! j))"
proof -
  let ?L = "length (levels_of ds)"
  let ?rs = "map (\<lambda>v. map (\<lambda>j. (col_name v (levels_of ds ! j), ravel (grids_of ds v ! j)))
                          [0 ..< ?L]) varsP"
  have "list_all (\<lambda>row. length row = ?L) ?rs" by (simp add: list_all_iff)
  then have "ravel ?rs ! (a * ?L + j) = ?rs ! a ! j"
    using assms by (intro ravel_nth) simp_all
  then show ?thesis using assms by (simp add: flat_columns_def ravel_def)
qed

text \<open>
  Claim C4. Flatten a well-formed dataset with \<^verbatim>\<open>df_flatten\<close> and reconstruct, on the
  grid of the same dataset, a well-formed prediction table with one row per row of the flat
  table. Then the flat table has \<open>rows \<times> columns\<close> rows; every flat column holds the
  value of position \<open>(r, c)\<close> of its grid in row \<open>r * columns + c\<close>; every output field at
  \<open>(r, c)\<close>, in the dataset returned and in the one passed in, is computed from the table
  row \<open>r * columns + c\<close> (the probability narrowed to float32); and a table column that
  equals a flat column comes back at \<open>(r, c)\<close> as the value the flattener took from
  \<open>(r, c)\<close>, narrowed to float32.
\<close>

theorem flatten_unflatten_inverse:
  assumes lv: "levels_of ds \<noteq> []" and d: "distinct (levels_of ds)"
      and ne: "varsP \<noteq> []" and w: "list_all (wf_level_var ds) varsP"
      and df: "df_flatten ds varsP = Inr df"
      and wf: "wf_table preds" and k: "4 \<le> n_cols preds"
      and n: "length (t_rows preds) = nrows df"
  shows "\<exists>d' ret. grid_predictions nc ds preds = Inr (d', ret)
           \<and> nrows df = dim_y ds * dim_x ds
           \<and> (\<forall>r < dim_y ds. \<forall>c < dim_x ds.
                 (\<forall>a < length varsP. \<forall>j < length (levels_of ds).
                    snd (columns df ! (a * length (levels_of ds) + j)) ! (r * dim_x ds + c)
                      = grids_of ds (varsP ! a) ! j ! r ! c)
               \<and> (\<forall>i < 4.
                    grid_value ret (ml_name i) r c
                      = Some (to_float32 nc (t_rows preds ! (r * dim_x ds + c) ! i))
                  \<and> grid_value d' (ml_name i) r c
                      = Some (to_float32 nc (t_rows preds ! (r * dim_x ds + c) ! i))
                  \<and> grid_value ret (ml_cname i) r c
                      = Some (if np_argmax (t_rows preds ! (r * dim_x ds + c)) = i then 1 else 0)
                  \<and> (\<forall>a < length varsP. \<forall>j < length (levels_of ds).
                        map (\<lambda>row. row ! i) (t_rows preds)
                          = snd (columns df ! (a * length (levels_of ds) + j))
                        \<longrightarrow> grid_value ret (ml_name i) r c
                              = Some (to_float32 nc (grids_of ds (varsP ! a) ! j ! r ! c)))))"
proof -
  let ?R = "dim_y ds" and ?C = "dim_x ds" and ?L = "length (levels_of ds)"
  have dfe: "df = \<lparr>nrows = ?R * ?C, columns = flat_columns ds varsP\<rparr>"
    using df df_flatten_columns[OF levels_present[OF lv] lv d ne w] by simp
  then have nr: "nrows df = ?R * ?C" and cols: "columns df = flat_columns ds varsP" by simp_all
  have k3: "3 \<le> n_cols preds" using k by simp
  have n': "length (t_rows preds) = ?R * ?C" using n nr by simp
  obtain d' where g: "grid_predictions nc ds preds = Inr (d', drop_levels d')"
    using grid_predictions_total[OF k3 n'] by blast
  have body: "(\<forall>a < length varsP. \<forall>j < ?L.
                    snd (columns df ! (a * ?L + j)) ! (r * ?C + c)
                      = grids_of ds (varsP ! a) ! j ! r ! c)
               \<and> (\<forall>i < 4.
                    grid_value (drop_levels d') (ml_name i) r c
                      = Some (to_float32 nc (t_rows preds ! (r * ?C + c) ! i))
                  \<and> grid_value d' (ml_name i) r c
                      = Some (to_float32 nc (t_rows preds ! (r * ?C + c) ! i))
                  \<and> grid_value (drop_levels d') (ml_cname i) r c
                      = Some (if np_argmax (t_rows preds ! (r * ?C + c)) = i then 1 else 0)
                  \<and> (\<forall>a < length varsP. \<forall>j < ?L.
                        map (\<lambda>row. row ! i) (t_rows preds) = snd (columns df ! (a * ?L + j))
                        \<longrightarrow> grid_value (drop_levels d') (ml_name i) r c
                              = Some (to_float32 nc (grids_of ds (varsP ! a) ! j ! r ! c))))"
    if r: "r < ?R" and c: "c < ?C" for r c
  proof -
    let ?n = "r * ?C + c"
    have idx: "?n < length (t_rows preds)" using cell_index[OF r c] n' by simp
    have len: "length (t_rows preds ! ?n) = n_cols preds" using idx by (rule table_row[OF wf])
    have flat: "snd (columns df ! (a * ?L + j)) ! ?n = grids_of ds (varsP ! a) ! j ! r ! c"
      if a: "a < length varsP" and j: "j < ?L" for a j
    proof -
      have wv: "wf_level_var ds (varsP ! a)" using w a by (simp add: list_all_length)
      have "wf_grid ds (grids_of ds (varsP ! a) ! j)"
        using wf_level_varD(2,3)[OF wv] j by (simp add: list_all_length)
      then have "ravel (grids_of ds (varsP ! a) ! j) ! ?n = grids_of ds (varsP ! a) ! j ! r ! c"
        using r c by (intro ravel_nth) (simp_all add: wf_grid_def)
      then show ?thesis by (simp add: cols flat_columns_nth[OF a j])
    qed
    have prob: "grid_value (drop_levels d') (ml_name i) r c
                  = Some (to_float32 nc (t_rows preds ! ?n ! i))" if i: "i < 4" for i
      using grid_predictions_cell(2)[OF g k3 i r c] len k i by (simp add: nth_append)
    have prob': "grid_value d' (ml_name i) r c
                  = Some (to_float32 nc (t_rows preds ! ?n ! i))" if i: "i < 4" for i
      using grid_predictions_cell(4)[OF g k3 i r c] prob[OF i] by simp
    have ind: "grid_value (drop_levels d') (ml_cname i) r c
                  = Some (if np_argmax (t_rows preds ! ?n) = i then 1 else 0)" if i: "i < 4" for i
      using grid_predictions_cell(1)[OF g k3 i r c] by simp
    have rt: "grid_value (drop_levels d') (ml_name i) r c
                  = Some (to_float32 nc (grids_of ds (varsP ! a) ! j ! r ! c))"
      if i: "i < 4" and a: "a < length varsP" and j: "j < ?L"
        and e: "map (\<lambda>row. row ! i) (t_rows preds) = snd (columns df ! (a * ?L + j))" for i a j
    proof -
      have "t_rows preds ! ?n ! i = map (\<lambda>row. row ! i) (t_rows preds) ! ?n" using idx by simp
      also have "\<dots> = snd (columns df ! (a * ?L + j)) ! ?n" by (simp only: e)
      also have "\<dots> = grids_of ds (varsP ! a) ! j ! r ! c" by (rule flat[OF a j])
      finally show ?thesis using prob[OF i] by simp
    qed
    show ?thesis using flat prob prob' ind rt by blast
  qed
  show ?thesis using g nr body by blast
qed

lemma example_flatten:
  "df_flatten example_dataset [''t'', ''u''] =
     Inr \<lparr>nrows = 6,
          columns = [(''t_1000'', [1, 2, 3, 4, 5, 6]), (''t_975'', [7, 8, 9, 10, 11, 12]),
                     (''u_1000'', [21, 22, 23, 24, 25, 26]), (''u_975'', [27, 28, 29, 30, 31, 32])]\<rparr>"
proof -
  have "map_of (coords example_dataset) ''isobaricInhPa'' \<noteq> None"
    by (simp add: example_dataset_def)
  moreover have "levels_of example_dataset \<noteq> []" "distinct (levels_of example_dataset)"
       "[''t'', ''u''] \<noteq> []" "list_all (wf_level_var example_dataset) [''t'', ''u'']"
    by (simp_all add: example_dataset_facts)
  ultimately show ?thesis
    using df_flatten_columns[of example_dataset "[''t'', ''u'']"]
    by (simp add: flat_columns_def col_name_def example_dataset_facts example_level_names
          ravel_def upt_rec)
qed

text \<open>
  The column \<^verbatim>\<open>t_975\<close> of the example, passed through as the snow probability, comes
  back at its positions.
\<close>

theorem flatten_unflatten_inverse_witness:
  "\<forall>nc. \<exists>d' ret.
      grid_predictions nc example_dataset
        \<lparr>n_cols = 4, t_rows = [[0, 7, 0, 0], [0, 8, 0, 0], [0, 9, 0, 0],
                                [0, 10, 0, 0], [0, 11, 0, 0], [0, 12, 0, 0]]\<rparr> = Inr (d', ret)
      \<and> grid_value ret ''ML_snow'' 1 2 = Some (to_float32 nc 12)
      \<and> grid_value ret ''ML_snow'' 0 1 = Some (to_float32 nc 8)"
proof
  fix nc
  let ?P = "\<lparr>n_cols = 4, t_rows = [[0, 7, 0, 0], [0, 8, 0, 0], [0, 9, 0, 0],
                                [0, 10, 0, 0], [0, 11, 0, 0], [0, 12, 0, 0::real]]\<rparr>"
  let ?df = "\<lparr>nrows = 6,
          columns = [(''t_1000'', [1, 2, 3, 4, 5, 6]), (''t_975'', [7, 8, 9, 10, 11, 12]),
                     (''u_1000'', [21, 22, 23, 24, 25, 26]), (''u_975'', [27, 28, 29, 30, 31, 32::real])]\<rparr>"
  have h: "levels_of example_dataset \<noteq> []" "distinct (levels_of example_dataset)"
       "[''t'', ''u''] \<noteq> []" "list_all (wf_level_var example_dataset) [''t'', ''u'']"
    by (simp_all add: example_dataset_facts)
  have p: "wf_table ?P" "4 \<le> n_cols ?P" "length (t_rows ?P) = nrows ?df"
    by (simp_all add: wf_table_def)
  from flatten_unflatten_inverse[OF h example_flatten p, of nc] obtain d' ret where
    g: "grid_predictions nc example_dataset ?P = Inr (d', ret)" and
    b: "\<And>r c i a j. r < dim_y example_dataset \<Longrightarrow> c < dim_x example_dataset \<Longrightarrow> i < 4
          \<Longrightarrow> a < length [''t'', ''u''] \<Longrightarrow> j < length (levels_of example_dataset)
          \<Longrightarrow> map (\<lambda>row. row ! i) (t_rows ?P)
                = snd (columns ?df ! (a * length (levels_of example_dataset) + j))
          \<Longrightarrow> grid_value ret (ml_name i) r c
                = Some (to_float32 nc (grids_of example_dataset ([''t'', ''u''] ! a) ! j ! r ! c))"
    by blast
  have "grid_value ret ''ML_snow'' 1 2 = Some (to_float32 nc 12)"
    using b[of 1 2 1 0 1] by (simp add: example_dataset_facts ml_names)
  moreover have "grid_value ret ''ML_snow'' 0 1 = Some (to_float32 nc 8)"
    using b[of 0 1 1 0 1] by (simp add: example_dataset_facts ml_names)
  ultimately show "\<exists>d' ret.
      grid_predictions nc example_dataset ?P = Inr (d', ret)
      \<and> grid_value ret ''ML_snow'' 1 2 = Some (to_float32 nc 12)
      \<and> grid_value ret ''ML_snow'' 0 1 = Some (to_float32 nc 8)"
    using g by blast
qed

subsection \<open>Surface override (claim C3)\<close>

lemma setitem_col0_rows:
  assumes "setitem_col0 ncols arr s = Inr b" and "length s = length arr"
  shows "length b = length arr" and "0 < ncols"
    and "i < length arr \<Longrightarrow> b ! i = (arr ! i)[0 := s ! i]"
  using assms by (auto simp: setitem_col0_def split: if_splits)

lemma interpolate_row_length:
  assumes "interpolate x y hl = Inr arr" and "i < length arr"
  shows "length (arr ! i) = length hl"
proof -
  have "length arr = length x" and "np_interp hl (x ! i) (y ! i) = Inr (arr ! i)"
    using interpolate_rows[OF assms(1)] assms(2) by auto
  then show ?thesis using np_interp_length by blast
qed

lemma values2d_length: "length (values2d n cols) = n"
  by (simp add: values2d_def)

lemma var_block_surface:
  assumes b: "var_block data surface_data pl (values2d (nrows data) hc) hl vsv = Inr blk"
      and s: "surface_data (snd vsv) = Some s" and l: "length s = nrows data"
  shows "length blk = nrows data" and "0 < length hl"
    and "i < nrows data \<Longrightarrow> length (blk ! i) = length hl \<and> blk ! i ! 0 = s ! i"
proof -
  from b s obtain cs arr where
    a: "interpolate (values2d (nrows data) hc) (values2d (nrows data) cs) hl = Inr arr" and
    st: "setitem_col0 (length hl) arr s = Inr blk"
    by (auto simp: var_block_def split: sum.splits option.splits)
  have la: "length arr = nrows data"
    using interpolate_rows[OF a] by (simp add: values2d_length)
  note r = setitem_col0_rows[OF st, unfolded la, OF l]
  show "length blk = nrows data" by (rule r(1))
  show h: "0 < length hl" by (rule r(2))
  { assume i: "i < nrows data"
    have "length (arr ! i) = length hl" using a i la by (intro interpolate_row_length) auto
    then show "length (blk ! i) = length hl \<and> blk ! i ! 0 = s ! i"
      using r(3)[OF i] h by simp }
qed

lemma var_arrays_loop_nth:
  "var_arrays_loop data surface_data pl hgt hl vs = Inr blocks \<Longrightarrow>
     length blocks = length vs
     \<and> (\<forall>k < length vs. var_block data surface_data pl hgt hl (vs ! k) = Inr (blocks ! k))"
proof (induction vs arbitrary: blocks)
  case Nil
  then show ?case by simp
next
  case (Cons a vs)
  from Cons.prems obtain b bs where
    b: "var_block data surface_data pl hgt hl a = Inr b" and
    bs: "var_arrays_loop data surface_data pl hgt hl vs = Inr bs" and
    e: "blocks = b # bs"
    by (auto split: sum.splits)
  from Cons.IH[OF bs] b e show ?case
    by (auto simp: nth_Cons split: nat.splits)
qed

lemma concatenate_axis1_rows:
  assumes "concatenate_axis1 arrays = Inr out" and "list_all (\<lambda>b. length b = n) arrays"
  shows "length out = n" and "i < n \<Longrightarrow> out ! i = concat (map (\<lambda>b. b ! i) arrays)"
proof -
  from assms(1) obtain a as where a: "arrays = a # as"
    and o: "out = map (\<lambda>i. concat (map (\<lambda>b. b ! i) arrays)) [0 ..< length a]"
    by (auto simp: concatenate_axis1_def split: list.splits if_splits)
  have n: "length a = n" using assms(2) a by simp
  show "length out = n" using o n by simp
  show "i < n \<Longrightarrow> out ! i = concat (map (\<lambda>b. b ! i) arrays)" using o n by simp
qed

lemma concat_uniform_nth:
  assumes "list_all (\<lambda>r. length r = H) rs" and "k < length rs" and "j < H"
  shows "concat rs ! (k * H + j) = rs ! k ! j"
  using assms ravel_nth[of H rs k j] by (simp add: ravel_def)

lemma concat_uniform_length:
  "list_all (\<lambda>r. length r = H) rs \<Longrightarrow> length (concat rs) = length rs * H"
  using ravel_length[of H rs] by (simp add: ravel_def)

lemma height_level_seq_form:
  assumes "height_level_seq c = Inr hl"
  shows "hl = map (\<lambda>k. low c + int k * interval c) [0 ..< length hl]"
  using assms by (auto simp: height_level_seq_def np_arange_def split: if_splits)

lemma height_level_seq_first_lowest:
  assumes "height_level_seq c = Inr hl" and "hl \<noteq> []" and "0 < interval c"
  shows "hd hl = low c" and "\<forall>h \<in> set hl. hd hl \<le> h"
proof -
  note f = height_level_seq_form[OF assms(1)]
  have n: "0 < length hl" using assms(2) by simp
  have "hd hl = hl ! 0" using assms(2) by (simp add: hd_conv_nth)
  also have "\<dots> = low c" using n by (subst f) simp
  finally show h: "hd hl = low c" .
  show "\<forall>h \<in> set hl. hd hl \<le> h"
  proof
    fix x assume "x \<in> set hl"
    then obtain k where "k < length hl" "x = hl ! k" by (auto simp: in_set_conv_nth)
    then have "x = low c + int k * interval c" by (subst (asm) (2) f) simp
    then show "hd hl \<le> x" using h assms(3) by simp
  qed
qed

lemma setitem_col0_shape:
  assumes "setitem_col0 ncols arr s = Inr b"
  shows "length b = length arr" and "i < length arr \<Longrightarrow> length (b ! i) = length (arr ! i)"
  using assms by (auto simp: setitem_col0_def split: if_splits)

lemma var_block_shape:
  assumes b: "var_block data surface_data pl (values2d (nrows data) hc) hl vsv = Inr blk"
  shows "length blk = nrows data" and "i < nrows data \<Longrightarrow> length (blk ! i) = length hl"
proof -
  from b obtain cs arr s where
    a: "interpolate (values2d (nrows data) hc) (values2d (nrows data) cs) hl = Inr arr" and
    st: "setitem_col0 (length hl) arr s = Inr blk"
    by (auto simp: var_block_def split: sum.splits option.splits)
  have la: "length arr = nrows data"
    using interpolate_rows[OF a] by (simp add: values2d_length)
  show "length blk = nrows data" using setitem_col0_shape(1)[OF st] la by simp
  { assume i: "i < nrows data"
    have "length (arr ! i) = length hl" using a i la by (intro interpolate_row_length) auto
    then show "length (blk ! i) = length hl"
      using setitem_col0_shape(2)[OF st, of i] i la by simp }
qed

lemma convert_and_interpolate_parts:
  assumes "convert_and_interpolate data surface_data pl hc = Inr out"
  shows "\<exists>hl hcs blocks.
           height_level_seq hc = Inr hl
         \<and> getitem_cols (columns data) (map (col_name ''hgt_above_sfc'') pl) = Inr hcs
         \<and> var_arrays_loop data surface_data pl (values2d (nrows data) hcs) (map real_of_int hl)
              (zip variables surface_variables) = Inr blocks
         \<and> concatenate_axis1 blocks = Inr out"
  using assms by (auto simp: convert_and_interpolate_def split: sum.splits)

lemma zip_variables_nth:
  assumes "k < 4"
  shows "k < length (zip variables surface_variables)"
    and "snd (zip variables surface_variables ! k) = surface_variables ! k"
    and "fst (zip variables surface_variables ! k) = variables ! k"
proof -
  have len: "length variables = 4" "length surface_variables = 4"
    by (simp_all add: variables_def surface_variables_def)
  show "k < length (zip variables surface_variables)" using assms len by simp
  show "snd (zip variables surface_variables ! k) = surface_variables ! k"
    using assms len by simp
  show "fst (zip variables surface_variables ! k) = variables ! k"
    using assms len by simp
qed

text \<open>
  Claim C3. Whenever \<^verbatim>\<open>convert_and_interpolate\<close> returns, the target levels are not empty
  and, for each of the four variables \<open>t, dpt, u, v\<close> (block \<open>k\<close> of the output) and every
  point \<open>i\<close>, the value in the first column of the block is the point's value of the surface
  variable \<open>t2m, d2m, u10, v10\<close>, whatever the interpolation gave there; the surface
  variable holds one value per point. The first column is the level \<open>low\<close>, the lowest of
  the levels when the interval is positive.
\<close>

theorem surface_override:
  assumes r: "convert_and_interpolate data surface_data pressure_levels hc = Inr out"
      and k: "k < 4" and s: "surface_data (surface_variables ! k) = Some s"
      and l: "length s = nrows data" and i: "i < nrows data"
  shows "\<exists>hl. height_level_seq hc = Inr hl \<and> hl \<noteq> []
           \<and> length out = nrows data \<and> length (out ! i) = 4 * length hl
           \<and> out ! i ! (k * length hl) = s ! i
           \<and> (0 < interval hc \<longrightarrow> hd hl = low hc \<and> (\<forall>h \<in> set hl. hd hl \<le> h))"
proof -
  from convert_and_interpolate_parts[OF r] obtain hl hcs blocks where
    hl: "height_level_seq hc = Inr hl" and
    lp: "var_arrays_loop data surface_data pressure_levels (values2d (nrows data) hcs)
           (map real_of_int hl) (zip variables surface_variables) = Inr blocks" and
    ct: "concatenate_axis1 blocks = Inr out"
    by blast
  let ?vs = "zip variables surface_variables"
  let ?H = "length hl"
  note lpn = var_arrays_loop_nth[OF lp]
  have nb: "length blocks = 4"
    using lpn by (simp add: variables_def surface_variables_def)
  have blk: "\<And>j. j < 4 \<Longrightarrow>
      var_block data surface_data pressure_levels (values2d (nrows data) hcs)
        (map real_of_int hl) (?vs ! j) = Inr (blocks ! j)"
    using lpn zip_variables_nth(1) by blast
  have shape: "\<And>j. j < 4 \<Longrightarrow> length (blocks ! j) = nrows data \<and> length (blocks ! j ! i) = ?H"
    using var_block_shape[OF blk] i by simp
  have all_n: "list_all (\<lambda>b. length b = nrows data) blocks"
    using shape nb by (simp add: list_all_length)
  note cat = concatenate_axis1_rows[OF ct all_n]
  let ?rs = "map (\<lambda>b. b ! i) blocks"
  have rs: "list_all (\<lambda>r. length r = ?H) ?rs"
    using shape nb by (simp add: list_all_length)
  have oi: "out ! i = concat ?rs" using cat(2)[OF i] .
  have sk: "surface_data (snd (?vs ! k)) = Some s"
    using s zip_variables_nth(2)[OF k] by simp
  note sv = var_block_surface[OF blk[OF k] sk l]
  have H: "0 < ?H" using sv(2) by simp
  have "out ! i ! (k * ?H + 0) = ?rs ! k ! 0"
    unfolding oi using rs k nb H by (intro concat_uniform_nth) simp_all
  then have v: "out ! i ! (k * ?H) = s ! i"
    using sv(3)[OF i] k nb by simp
  have len: "length (out ! i) = 4 * ?H"
    unfolding oi using concat_uniform_length[OF rs] nb by simp
  have ne: "hl \<noteq> []" using H by auto
  have low: "0 < interval hc \<longrightarrow> hd hl = low hc \<and> (\<forall>h \<in> set hl. hd hl \<le> h)"
    using height_level_seq_first_lowest[OF hl ne] by blast
  show ?thesis using hl ne cat(1) len v low by blast
qed

lemma example_run:
  "convert_and_interpolate example_table example_surface [1000, 900]
     \<lparr>low = 0, high = 1000, interval = 500\<rparr> =
   Inr [[11, 8, 11 / 2, 2, 3 / 5, 1 / 10, 0, 19 / 5, 24 / 5, 1, 39 / 5, 44 / 5],
        [21, 37 / 2, 16, 3, 17 / 10, 6 / 5, 0, 23 / 5, 28 / 5, 1, 43 / 5, 48 / 5]]"
  by code_simp

text \<open>
  On the example the 2-m temperature of the second point and the 2-m dewpoint of the first
  one sit at the lowest level of their blocks.
\<close>

theorem surface_override_witness:
  "\<exists>out hl. convert_and_interpolate example_table example_surface [1000, 900]
               \<lparr>low = 0, high = 1000, interval = 500\<rparr> = Inr out
      \<and> height_level_seq \<lparr>low = 0, high = 1000, interval = 500\<rparr> = Inr hl
      \<and> length hl = 3 \<and> hd hl = 0
      \<and> out ! 1 ! (0 * length hl) = 21 \<and> out ! 0 ! (1 * length hl) = 2"
proof -
  let ?hc = "\<lparr>low = 0, high = 1000, interval = 500\<rparr>"
  let ?out = "[[11, 8, 11 / 2, 2, 3 / 5, 1 / 10, 0, 19 / 5, 24 / 5, 1, 39 / 5, 44 / 5],
        [21, 37 / 2, 16, 3, 17 / 10, 6 / 5, 0, 23 / 5, 28 / 5, 1, 43 / 5, 48 / 5::real]]"
  note r = example_run
  have s: "example_surface (surface_variables ! 0) = Some [11, 21]"
          "example_surface (surface_variables ! 1) = Some [2, 3]"
    by (simp_all add: example_surface_def surface_variables_def)
  have n: "length [11, 21::real] = nrows example_table" "length [2, 3::real] = nrows example_table"
          "1 < nrows example_table" "0 < nrows example_table"
    by (simp_all add: example_table_def)
  have hl: "height_level_seq ?hc = Inr [0, 500, 1000]"
    by (simp add: height_level_seq_def np_arange_def upt_rec)
  from surface_override[OF r _ s(1) n(1) n(3)]
  have a: "?out ! 1 ! (0 * length [0, 500, 1000::int]) = [11, 21] ! 1"
    unfolding hl by auto
  from surface_override[OF r _ s(2) n(2) n(4)]
  have b: "?out ! 0 ! (1 * length [0, 500, 1000::int]) = [2, 3] ! 0"
    unfolding hl by auto
  show ?thesis
    using r hl a b by (intro exI[of _ ?out] exI[of _ "[0, 500, 1000]"]) simp
qed

subsection \<open>Pressure-level columns (claim C8)\<close>














subsection \<open>Ownership of the inputs (claim C9)\<close>

lemma only_new_arrays_refl: "only_new_arrays s s"
  by (simp add: only_new_arrays_def)

lemma only_new_arrays_trans:
  assumes "only_new_arrays s s1" and "only_new_arrays s1 s2"
  shows "only_new_arrays s s2"
proof -
  have a: "take (length (ndarrays s)) (ndarrays s1) = ndarrays s"
    and b: "take (length (ndarrays s1)) (ndarrays s2) = ndarrays s1"
    and l: "length (ndarrays s) \<le> length (ndarrays s1)" "length (ndarrays s1) \<le> length (ndarrays s2)"
    using assms by (simp_all add: only_new_arrays_def)
  have "take (length (ndarrays s)) (take (length (ndarrays s1)) (ndarrays s2))
          = take (length (ndarrays s)) (ndarrays s2)"
    using l(1) by (simp only: take_take min.absorb1)
  with a b have "take (length (ndarrays s)) (ndarrays s2) = ndarrays s" by simp
  moreover have "length (ndarrays s) \<le> length (ndarrays s2)" using l by simp
  ultimately show ?thesis using assms by (simp add: only_new_arrays_def)
qed

lemma only_new_arrays_nth:
  "only_new_arrays s s' \<Longrightarrow> r < length (ndarrays s) \<Longrightarrow> ndarrays s' ! r = ndarrays s ! r"
  by (metis nth_take only_new_arrays_def)

lemma new_array_frame:
  assumes "new_array s a = (r, s')"
  shows "only_new_arrays s s'" and "r = length (ndarrays s)" and "ndarrays s' = ndarrays s @ [a]"
  using assms by (auto simp: new_array_def only_new_arrays_def)

lemma nth_append_second: "(xs @ [p, a]) ! Suc (length xs) = a"
  by (simp add: nth_append)

lemma update_append_second: "(xs @ [p, a])[Suc (length xs) := b] = xs @ [p, b]"
  by (simp add: list_update_append)

lemma var_block_st_eq:
  "var_block_st s data sd pl hgt hl vsv =
     (case getitem_cols (columns (frames s ! data)) (map (col_name (fst vsv)) pl) of
        Inl e \<Rightarrow> Inl e
      | Inr cs \<Rightarrow>
          (case interpolate ((ndarrays s @ [values2d (nrows (frames s ! data)) cs]) ! hgt)
                  (values2d (nrows (frames s ! data)) cs) hl of
             Inl e \<Rightarrow> Inl e
           | Inr arr \<Rightarrow>
               (case (surfaces s ! sd) (snd vsv) of
                  None \<Rightarrow> Inl KeyError
                | Some sv \<Rightarrow>
                    (case setitem_col0 (length hl) arr sv of
                       Inl e \<Rightarrow> Inl e
                     | Inr a \<Rightarrow>
                         Inr (Suc (length (ndarrays s)),
                              s\<lparr>ndarrays := ndarrays s
                                   @ [values2d (nrows (frames s ! data)) cs, a]\<rparr>)))))"
  by (simp add: var_block_st_def interpolate_st_def new_array_def nth_append_second
                update_append_second
           split: sum.splits option.splits)

lemma var_block_st_frame:
  assumes "var_block_st s data sd pl hgt hl vsv = Inr (b, s')"
  shows "only_new_arrays s s'" and "length (ndarrays s) \<le> b" and "b < length (ndarrays s')"
proof -
  from assms obtain p a where
    "s' = s\<lparr>ndarrays := ndarrays s @ [p, a]\<rparr> \<and> b = Suc (length (ndarrays s))"
    unfolding var_block_st_eq by (auto split: sum.splits option.splits)
  then show "only_new_arrays s s'" and "length (ndarrays s) \<le> b" and "b < length (ndarrays s')"
    by (simp_all add: only_new_arrays_def)
qed

lemma var_arrays_loop_st_frame:
  "var_arrays_loop_st s data sd pl hgt hl vs = Inr (bs, s') \<Longrightarrow>
     only_new_arrays s s' \<and> list_all (\<lambda>b. length (ndarrays s) \<le> b \<and> b < length (ndarrays s')) bs"
proof (induction vs arbitrary: s bs)
  case Nil
  then show ?case by (simp add: only_new_arrays_refl)
next
  case (Cons vsv vs)
  from Cons.prems obtain b s1 bs' where
    b: "var_block_st s data sd pl hgt hl vsv = Inr (b, s1)" and
    r: "var_arrays_loop_st s1 data sd pl hgt hl vs = Inr (bs', s')" and
    e: "bs = b # bs'"
    by (auto split: sum.splits prod.splits)
  note f = var_block_st_frame[OF b]
  from Cons.IH[OF r] have g: "only_new_arrays s1 s'"
    and h: "list_all (\<lambda>b. length (ndarrays s1) \<le> b \<and> b < length (ndarrays s')) bs'" by auto
  have l: "length (ndarrays s) \<le> length (ndarrays s1)" "length (ndarrays s1) \<le> length (ndarrays s')"
    using f(1) g by (simp_all add: only_new_arrays_def)
  have "list_all (\<lambda>b. length (ndarrays s) \<le> b \<and> b < length (ndarrays s')) bs'"
    using h l by (auto simp: list_all_iff)
  moreover have "length (ndarrays s) \<le> b \<and> b < length (ndarrays s')" using f l by simp
  ultimately show ?case using only_new_arrays_trans[OF f(1) g] e by simp
qed

lemma convert_and_interpolate_st_frame:
  assumes "convert_and_interpolate_st s data sd pl hc = Inr (a, s')"
  shows "only_new_arrays s s'" and "length (ndarrays s) \<le> a" and "a < length (ndarrays s')"
proof -
  from assms obtain hcs hl bs s2 out where
    l: "var_arrays_loop_st (s\<lparr>ndarrays := ndarrays s @ [values2d (nrows (frames s ! data)) hcs]\<rparr>)
          data sd pl (length (ndarrays s)) hl (zip variables surface_variables) = Inr (bs, s2)" and
    n: "new_array s2 out = (a, s')"
    by (auto simp: convert_and_interpolate_st_def new_array_def split: sum.splits prod.splits)
  let ?s1 = "s\<lparr>ndarrays := ndarrays s @ [values2d (nrows (frames s ! data)) hcs]\<rparr>"
  have f1: "only_new_arrays s ?s1" by (simp add: only_new_arrays_def)
  have f2: "only_new_arrays ?s1 s2" using var_arrays_loop_st_frame[OF l] by simp
  note f3 = new_array_frame[OF n]
  have t: "only_new_arrays s s2" by (rule only_new_arrays_trans[OF f1 f2])
  show "only_new_arrays s s'" by (rule only_new_arrays_trans[OF t f3(1)])
  show "length (ndarrays s) \<le> a" using t f3(2) by (simp add: only_new_arrays_def)
  show "a < length (ndarrays s')" using f3 by simp
qed


lemma var_block_st_refines:
  "map_sum id (\<lambda>(b, s'). ndarrays s' ! b) (var_block_st s data sd pl hgt hl vsv) =
     var_block (frames s ! data) (surfaces s ! sd) pl
       ((ndarrays s @ [values2d (nrows (frames s ! data))
                       (projr (getitem_cols (columns (frames s ! data))
                                 (map (col_name (fst vsv)) pl)))]) ! hgt) hl vsv"
  by (simp add: var_block_st_eq var_block_def nth_append_second
           split: sum.splits option.splits)

lemma var_block_st_value:
  assumes "hgt < length (ndarrays s)"
  shows "map_sum id (\<lambda>(b, s'). ndarrays s' ! b) (var_block_st s data sd pl hgt hl vsv) =
           var_block (frames s ! data) (surfaces s ! sd) pl (ndarrays s ! hgt) hl vsv"
  using assms by (simp add: var_block_st_refines nth_append)

lemma var_arrays_loop_st_value:
  assumes "hgt < length (ndarrays s)"
  shows "map_sum id (\<lambda>(bs, s'). map (\<lambda>b. ndarrays s' ! b) bs)
           (var_arrays_loop_st s data sd pl hgt hl vs) =
         var_arrays_loop (frames s ! data) (surfaces s ! sd) pl (ndarrays s ! hgt) hl vs"
  using assms
proof (induction vs arbitrary: s)
  case Nil
  then show ?case by simp
next
  case (Cons vsv vs)
  note v = var_block_st_value[OF Cons.prems, of data sd pl hl vsv]
  show ?case
  proof (cases "var_block_st s data sd pl hgt hl vsv")
    case (Inl e)
    have "var_block (frames s ! data) (surfaces s ! sd) pl (ndarrays s ! hgt) hl vsv = Inl e"
      using v[symmetric] Inl by simp
    with Inl show ?thesis by simp
  next
    case (Inr r)
    obtain b s1 where r: "r = (b, s1)" by (cases r)
    note blk = Inr[unfolded r]
    note f = var_block_st_frame[OF blk]
    have pure: "var_block (frames s ! data) (surfaces s ! sd) pl (ndarrays s ! hgt) hl vsv
                  = Inr (ndarrays s1 ! b)"
      using v[symmetric] blk by simp
    have same: "frames s1 = frames s" "surfaces s1 = surfaces s"
      and len: "length (ndarrays s) \<le> length (ndarrays s1)"
      using f(1) by (simp_all add: only_new_arrays_def)
    have h1: "hgt < length (ndarrays s1)" using Cons.prems len by simp
    have hv: "ndarrays s1 ! hgt = ndarrays s ! hgt"
      by (rule only_new_arrays_nth[OF f(1) Cons.prems])
    note ih = Cons.IH[OF h1, unfolded same hv]
    show ?thesis
    proof (cases "var_arrays_loop_st s1 data sd pl hgt hl vs")
      case (Inl e)
      have "var_arrays_loop (frames s ! data) (surfaces s ! sd) pl (ndarrays s ! hgt) hl vs = Inl e"
        using ih[symmetric] Inl by simp
      with Inl blk pure show ?thesis by simp
    next
      case (Inr q)
      obtain bs s2 where q: "q = (bs, s2)" by (cases q)
      note rest = Inr[unfolded q]
      have keep: "ndarrays s2 ! b = ndarrays s1 ! b"
        using only_new_arrays_nth[of s1 s2 b] var_arrays_loop_st_frame[OF rest] f(3) by simp
      have "var_arrays_loop (frames s ! data) (surfaces s ! sd) pl (ndarrays s ! hgt) hl vs
              = Inr (map (\<lambda>b. ndarrays s2 ! b) bs)"
        using ih[symmetric] rest by simp
      with blk pure rest keep show ?thesis by simp
    qed
  qed
qed

lemma convert_and_interpolate_st_value:
  "map_sum id (\<lambda>(a, s'). ndarrays s' ! a) (convert_and_interpolate_st s data sd pl hc) =
     convert_and_interpolate (frames s ! data) (surfaces s ! sd) pl hc"
proof (cases "height_level_seq hc")
  case (Inl e)
  then show ?thesis by (simp add: convert_and_interpolate_st_def convert_and_interpolate_def)
next
  case hl: (Inr hl)
  show ?thesis
  proof (cases "getitem_cols (columns (frames s ! data)) (map (col_name ''hgt_above_sfc'') pl)")
    case (Inl e)
    with hl show ?thesis
      by (simp add: convert_and_interpolate_st_def convert_and_interpolate_def)
  next
    case hcs: (Inr hcs)
    let ?h = "values2d (nrows (frames s ! data)) hcs"
    let ?s1 = "s\<lparr>ndarrays := ndarrays s @ [?h]\<rparr>"
    have l: "map_sum id (\<lambda>(bs, s'). map (\<lambda>b. ndarrays s' ! b) bs)
               (var_arrays_loop_st ?s1 data sd pl (length (ndarrays s)) (map real_of_int hl)
                  (zip variables surface_variables)) =
             var_arrays_loop (frames s ! data) (surfaces s ! sd) pl ?h (map real_of_int hl)
               (zip variables surface_variables)"
      using var_arrays_loop_st_value[of "length (ndarrays s)" ?s1 data sd pl "map real_of_int hl"
              "zip variables surface_variables"]
      by simp
    show ?thesis
    proof (cases "var_arrays_loop_st ?s1 data sd pl (length (ndarrays s)) (map real_of_int hl)
                    (zip variables surface_variables)")
      case (Inl e)
      with l[symmetric] hl hcs show ?thesis
        by (simp add: convert_and_interpolate_st_def convert_and_interpolate_def new_array_def)
    next
      case (Inr q)
      obtain bs s2 where q: "q = (bs, s2)" by (cases q)
      note rest = Inr[unfolded q]
      show ?thesis using l[symmetric] hl hcs rest
        by (simp add: convert_and_interpolate_st_def convert_and_interpolate_def new_array_def
                 split: sum.splits)
    qed
  qed
qed

lemma assign_ml_frame:
  assumes "assign_ml nc k resh d (i, lv, v) = Inr d'"
  shows "dim_y d' = dim_y d" and "dim_x d' = dim_x d" and "coords d' = coords d"
    and "n \<noteq> ''ML_'' @ v \<Longrightarrow> n \<noteq> ''ML_c'' @ v \<Longrightarrow> data_vars d' n = data_vars d n"
    and "data_vars d n \<noteq> None \<Longrightarrow> data_vars d' n \<noteq> None"
    and "data_vars d' (''ML_'' @ v) \<noteq> None" and "data_vars d' (''ML_c'' @ v) \<noteq> None"
  using assms by (auto simp: assign_ml_def split: sum.splits)

lemma ml_loop_frame:
  "ml_loop nc k resh d ps = Inr d' \<Longrightarrow>
     dim_y d' = dim_y d \<and> dim_x d' = dim_x d \<and> coords d' = coords d
     \<and> (\<forall>n. (\<forall>p \<in> set ps. n \<noteq> ''ML_'' @ snd (snd p) \<and> n \<noteq> ''ML_c'' @ snd (snd p))
            \<longrightarrow> data_vars d' n = data_vars d n)
     \<and> (\<forall>n. data_vars d n \<noteq> None \<longrightarrow> data_vars d' n \<noteq> None)
     \<and> (\<forall>p \<in> set ps. data_vars d' (''ML_'' @ snd (snd p)) \<noteq> None
                      \<and> data_vars d' (''ML_c'' @ snd (snd p)) \<noteq> None)"
proof (induction ps arbitrary: d)
  case Nil
  then show ?case by simp
next
  case (Cons p ps)
  obtain i lv v where p: "p = (i, lv, v)" by (cases p)
  from Cons.prems obtain d1 where
    a: "assign_ml nc k resh d (i, lv, v) = Inr d1" and l: "ml_loop nc k resh d1 ps = Inr d'"
    by (auto simp: p split: sum.splits)
  note f = assign_ml_frame[OF a]
  note ih = Cons.IH[OF l]
  have "dim_y d' = dim_y d \<and> dim_x d' = dim_x d \<and> coords d' = coords d"
    using ih f(1,2,3) by simp
  moreover have "\<forall>n. (\<forall>q \<in> set (p # ps). n \<noteq> ''ML_'' @ snd (snd q) \<and> n \<noteq> ''ML_c'' @ snd (snd q))
            \<longrightarrow> data_vars d' n = data_vars d n"
    using ih f(4) by (simp add: p)
  moreover have "\<forall>n. data_vars d n \<noteq> None \<longrightarrow> data_vars d' n \<noteq> None"
    using ih f(5) by blast
  moreover have "\<forall>q \<in> set (p # ps). data_vars d' (''ML_'' @ snd (snd q)) \<noteq> None
                      \<and> data_vars d' (''ML_c'' @ snd (snd q)) \<noteq> None"
    using ih f(6,7) by (simp add: p)
  ultimately show ?case by blast
qed

lemma fold_cast_uint8_vars:
  "distinct vs \<Longrightarrow>
     data_vars (fold (\<lambda>var d. cast_uint8 nc d var) vs d) n =
       (if n \<in> set vs
        then map_option (\<lambda>x. x\<lparr>dtype := UInt8, vals := map_values (to_uint8 nc) (vals x)\<rparr>)
               (data_vars d n)
        else data_vars d n)"
proof (induction vs arbitrary: d)
  case Nil
  then show ?case by simp
next
  case (Cons v vs)
  have c: "data_vars (cast_uint8 nc d v) v =
             map_option (\<lambda>x. x\<lparr>dtype := UInt8, vals := map_values (to_uint8 nc) (vals x)\<rparr>)
               (data_vars d v)"
    by (simp add: cast_uint8_def split: option.splits)
  have o: "n \<noteq> v \<Longrightarrow> data_vars (cast_uint8 nc d v) n = data_vars d n"
    by (rule cast_uint8_other)
  have ih: "data_vars (fold (\<lambda>var d. cast_uint8 nc d var) (v # vs) d) n =
       (if n \<in> set vs
        then map_option (\<lambda>x. x\<lparr>dtype := UInt8, vals := map_values (to_uint8 nc) (vals x)\<rparr>)
               (data_vars (cast_uint8 nc d v) n)
        else data_vars (cast_uint8 nc d v) n)"
    using Cons.prems Cons.IH[of "cast_uint8 nc d v"] by simp
  show ?case
  proof (cases "n = v")
    case True
    then have "n \<notin> set vs" using Cons.prems by simp
    with ih c True show ?thesis by simp
  next
    case False
    with ih o show ?thesis by simp
  qed
qed

lemma fold_cast_uint8_dims:
  "dim_y (fold (\<lambda>var d. cast_uint8 nc d var) vs d) = dim_y d
   \<and> dim_x (fold (\<lambda>var d. cast_uint8 nc d var) vs d) = dim_x d
   \<and> coords (fold (\<lambda>var d. cast_uint8 nc d var) vs d) = coords d"
  by (induction vs arbitrary: d) (simp_all add: cast_uint8_dims)

lemma grid_predictions_frame:
  assumes "grid_predictions nc D P = Inr (d', ret)"
  shows "ret = drop_levels d'"
    and "dim_y d' = dim_y D" and "dim_x d' = dim_x D"
    and "coords d' = coords (cast_coords nc D)"
    and "i < 4 \<Longrightarrow> data_vars d' (ml_name i) \<noteq> None \<and> data_vars d' (ml_cname i) \<noteq> None"
    and "n \<in> set [''crain'', ''csnow'', ''cicep'', ''cfrzr''] \<Longrightarrow>
           data_vars d' n =
             map_option (\<lambda>x. x\<lparr>dtype := UInt8, vals := map_values (to_uint8 nc) (vals x)\<rparr>)
               (data_vars D n)"
    and "(\<forall>i<4. n \<noteq> ml_name i \<and> n \<noteq> ml_cname i)
           \<Longrightarrow> n \<notin> set [''crain'', ''csnow'', ''cicep'', ''cfrzr'']
           \<Longrightarrow> data_vars d' n = data_vars D n"
proof -
  let ?cs = "[''crain'', ''csnow'', ''cicep'', ''cfrzr'']"
  from assms obtain k resh d1 where
    l: "ml_loop nc k resh D ptypes = Inr d1" and
    d': "d' = cast_coords nc (fold (\<lambda>var d. cast_uint8 nc d var) ?cs d1)" and
    r: "ret = drop_levels d'"
    by (auto simp: grid_predictions_def Let_def split: sum.splits)
  note f = ml_loop_frame[OF l]
  let ?d2 = "fold (\<lambda>var d. cast_uint8 nc d var) ?cs d1"
  have dv: "data_vars d' = data_vars ?d2" by (simp add: d' cast_coords_def)
  have di: "distinct ?cs" by simp
  note c = fold_cast_uint8_vars[OF di, of nc d1]
  note dm = fold_cast_uint8_dims[of nc ?cs d1]
  show "ret = drop_levels d'" by (rule r)
  show "dim_y d' = dim_y D" using f dm by (simp add: d' cast_coords_def)
  show "dim_x d' = dim_x D" using f dm by (simp add: d' cast_coords_def)
  show "coords d' = coords (cast_coords nc D)" using f dm by (simp add: d' cast_coords_def)
  show "data_vars d' (ml_name i) \<noteq> None \<and> data_vars d' (ml_cname i) \<noteq> None" if "i < 4"
  proof -
    have m: "ptypes ! i \<in> set ptypes" using that by (intro nth_mem) (simp add: ptypes_def)
    have "data_vars d1 (ml_name i) \<noteq> None \<and> data_vars d1 (ml_cname i) \<noteq> None"
      using f m by (simp add: ml_name_def ml_cname_def)
    moreover have "ml_name i \<notin> set ?cs" "ml_cname i \<notin> set ?cs"
      using less4_cases[OF that] by (auto simp: ml_name_def ml_cname_def ptypes_def)
    ultimately show ?thesis unfolding dv c by simp
  qed
  have pt: "(\<forall>p \<in> set ptypes. n \<noteq> ''ML_'' @ snd (snd p) \<and> n \<noteq> ''ML_c'' @ snd (snd p))
              = (\<forall>i<4. n \<noteq> ml_name i \<and> n \<noteq> ml_cname i)" for n
  proof
    assume a: "\<forall>p \<in> set ptypes. n \<noteq> ''ML_'' @ snd (snd p) \<and> n \<noteq> ''ML_c'' @ snd (snd p)"
    show "\<forall>i<4. n \<noteq> ml_name i \<and> n \<noteq> ml_cname i"
    proof (intro allI impI)
      fix i :: nat assume "i < 4"
      then have "ptypes ! i \<in> set ptypes" by (intro nth_mem) (simp add: ptypes_def)
      with a show "n \<noteq> ml_name i \<and> n \<noteq> ml_cname i" by (simp add: ml_name_def ml_cname_def)
    qed
  next
    assume a: "\<forall>i<4. n \<noteq> ml_name i \<and> n \<noteq> ml_cname i"
    have "n \<noteq> ml_name 0 \<and> n \<noteq> ml_cname 0" "n \<noteq> ml_name 1 \<and> n \<noteq> ml_cname 1"
         "n \<noteq> ml_name 2 \<and> n \<noteq> ml_cname 2" "n \<noteq> ml_name 3 \<and> n \<noteq> ml_cname 3"
      using a by simp_all
    then show "\<forall>p \<in> set ptypes. n \<noteq> ''ML_'' @ snd (snd p) \<and> n \<noteq> ''ML_c'' @ snd (snd p)"
      by (simp add: ml_name_def ml_cname_def ptypes_def)
  qed
  show "data_vars d' n =
          map_option (\<lambda>x. x\<lparr>dtype := UInt8, vals := map_values (to_uint8 nc) (vals x)\<rparr>)
            (data_vars D n)" if n: "n \<in> set ?cs"
  proof -
    have "\<forall>p \<in> set ptypes. n \<noteq> ''ML_'' @ snd (snd p) \<and> n \<noteq> ''ML_c'' @ snd (snd p)"
      using n by (auto simp: ptypes_def)
    then have "data_vars d1 n = data_vars D n" using f by blast
    then show ?thesis unfolding dv c using n by simp
  qed
  show "data_vars d' n = data_vars D n"
    if a: "\<forall>i<4. n \<noteq> ml_name i \<and> n \<noteq> ml_cname i" and b: "n \<notin> set ?cs"
  proof -
    have "data_vars d1 n = data_vars D n" using f a pt[of n] by blast
    then show ?thesis unfolding dv c using b by simp
  qed
qed

lemma df_flatten_st_frame:
  assumes "df_flatten_st s ds varsP = Inr (f, s1)"
  shows "f = length (frames s)" and "s1 = s\<lparr>frames := frames s @ [frames s1 ! f]\<rparr>"
    and "df_flatten (datasets s ! ds) varsP = Inr (frames s1 ! f)"
  using assms by (auto simp: df_flatten_st_def split: sum.splits)

lemma grid_predictions_st_frame:
  assumes "grid_predictions_st nc s gd preds = Inr (g, s3)" and "gd < length (datasets s)"
  shows "g = length (datasets s)"
    and "s3 = s\<lparr>datasets := (datasets s)[gd := datasets s3 ! gd] @ [datasets s3 ! g]\<rparr>"
    and "grid_predictions nc (datasets s ! gd) (tables s ! preds)
           = Inr (datasets s3 ! gd, datasets s3 ! g)"
proof -
  from assms(1) obtain d' ret where
    p: "grid_predictions nc (datasets s ! gd) (tables s ! preds) = Inr (d', ret)" and
    g: "g = length (datasets s)" and
    s3: "s3 = s\<lparr>datasets := (datasets s)[gd := d'] @ [ret]\<rparr>"
    by (auto simp: grid_predictions_st_def split: sum.splits)
  have a: "datasets s3 ! gd = d'" using assms(2) by (simp add: s3 nth_append)
  have b: "datasets s3 ! g = ret" by (simp add: s3 g nth_append)
  show "g = length (datasets s)" by (rule g)
  show "s3 = s\<lparr>datasets := (datasets s)[gd := datasets s3 ! gd] @ [datasets s3 ! g]\<rparr>"
    unfolding a b by (rule s3)
  show "grid_predictions nc (datasets s ! gd) (tables s ! preds)
           = Inr (datasets s3 ! gd, datasets s3 ! g)"
    unfolding a b by (rule p)
qed

text \<open>
  Claim C9, as the code has it. \<^verbatim>\<open>df_flatten\<close> leaves every object as it was and adds
  one frame, its result. \<^verbatim>\<open>convert_and_interpolate\<close> leaves the datasets, frames,
  surface dictionaries, tables and every array that existed before the call as they were:
  it writes only into arrays created during the call, and its result is one of them.
  \<^verbatim>\<open>grid_predictions\<close> leaves frames, dictionaries, tables, arrays and every other
  dataset as they were, adds one dataset, its result, and changes the dataset it was
  given: afterwards that dataset holds the eight \<^verbatim>\<open>ML_\<close> fields, the variables
  \<^verbatim>\<open>crain\<close>, \<^verbatim>\<open>csnow\<close>, \<^verbatim>\<open>cicep\<close>, \<^verbatim>\<open>cfrzr\<close> that were present are converted to
  \<^verbatim>\<open>uint8\<close>, the \<^verbatim>\<open>float64\<close> coordinates to \<^verbatim>\<open>float32\<close>, and every other variable and
  the grid shape are as before; the result is this dataset without the level coordinates.
  In each case the result is the one of the function on the values of its arguments.
\<close>

theorem stages_write_fresh_objects_or_dataset:
  "(df_flatten_st s ds varsP = Inr (f, s1) \<longrightarrow>
      f = length (frames s) \<and> s1 = s\<lparr>frames := frames s @ [frames s1 ! f]\<rparr>
      \<and> df_flatten (datasets s ! ds) varsP = Inr (frames s1 ! f))
   \<and> (convert_and_interpolate_st s data sd pl hc = Inr (a, s2) \<longrightarrow>
      datasets s2 = datasets s \<and> frames s2 = frames s \<and> surfaces s2 = surfaces s
      \<and> tables s2 = tables s \<and> take (length (ndarrays s)) (ndarrays s2) = ndarrays s
      \<and> length (ndarrays s) \<le> a \<and> a < length (ndarrays s2)
      \<and> convert_and_interpolate (frames s ! data) (surfaces s ! sd) pl hc = Inr (ndarrays s2 ! a))
   \<and> (gd < length (datasets s) \<and> grid_predictions_st nc s gd preds = Inr (g, s3) \<longrightarrow>
      g = length (datasets s)
      \<and> s3 = s\<lparr>datasets := (datasets s)[gd := datasets s3 ! gd] @ [datasets s3 ! g]\<rparr>
      \<and> grid_predictions nc (datasets s ! gd) (tables s ! preds)
           = Inr (datasets s3 ! gd, datasets s3 ! g)
      \<and> datasets s3 ! g = drop_levels (datasets s3 ! gd)
      \<and> dim_y (datasets s3 ! gd) = dim_y (datasets s ! gd)
      \<and> dim_x (datasets s3 ! gd) = dim_x (datasets s ! gd)
      \<and> coords (datasets s3 ! gd) = coords (cast_coords nc (datasets s ! gd))
      \<and> (\<forall>i<4. data_vars (datasets s3 ! gd) (ml_name i) \<noteq> None
               \<and> data_vars (datasets s3 ! gd) (ml_cname i) \<noteq> None)
      \<and> (\<forall>n \<in> set [''crain'', ''csnow'', ''cicep'', ''cfrzr''].
            data_vars (datasets s3 ! gd) n =
              map_option (\<lambda>x. x\<lparr>dtype := UInt8, vals := map_values (to_uint8 nc) (vals x)\<rparr>)
                (data_vars (datasets s ! gd) n))
      \<and> (\<forall>n. (\<forall>i<4. n \<noteq> ml_name i \<and> n \<noteq> ml_cname i)
               \<and> n \<notin> set [''crain'', ''csnow'', ''cicep'', ''cfrzr'']
            \<longrightarrow> data_vars (datasets s3 ! gd) n = data_vars (datasets s ! gd) n))"
proof (intro conjI impI)
  assume "df_flatten_st s ds varsP = Inr (f, s1)"
  note f = df_flatten_st_frame[OF this]
  show "f = length (frames s)" by (rule f(1))
  show "s1 = s\<lparr>frames := frames s @ [frames s1 ! f]\<rparr>" by (rule f(2))
  show "df_flatten (datasets s ! ds) varsP = Inr (frames s1 ! f)" by (rule f(3))
next
  assume c: "convert_and_interpolate_st s data sd pl hc = Inr (a, s2)"
  note f = convert_and_interpolate_st_frame[OF c]
  show "datasets s2 = datasets s" "frames s2 = frames s" "surfaces s2 = surfaces s"
       "tables s2 = tables s" "take (length (ndarrays s)) (ndarrays s2) = ndarrays s"
    using f(1) by (simp_all add: only_new_arrays_def)
  show "length (ndarrays s) \<le> a" by (rule f(2))
  show "a < length (ndarrays s2)" by (rule f(3))
  show "convert_and_interpolate (frames s ! data) (surfaces s ! sd) pl hc = Inr (ndarrays s2 ! a)"
    using convert_and_interpolate_st_value[of s data sd pl hc, symmetric] c by simp
next
  assume h: "gd < length (datasets s) \<and> grid_predictions_st nc s gd preds = Inr (g, s3)"
  note f = grid_predictions_st_frame[OF conjunct2[OF h] conjunct1[OF h]]
  note p = grid_predictions_frame[OF f(3)]
  show "g = length (datasets s)" by (rule f(1))
  show "s3 = s\<lparr>datasets := (datasets s)[gd := datasets s3 ! gd] @ [datasets s3 ! g]\<rparr>"
    by (rule f(2))
  show "grid_predictions nc (datasets s ! gd) (tables s ! preds)
           = Inr (datasets s3 ! gd, datasets s3 ! g)" by (rule f(3))
  show "datasets s3 ! g = drop_levels (datasets s3 ! gd)" by (rule p(1))
  show "dim_y (datasets s3 ! gd) = dim_y (datasets s ! gd)" by (rule p(2))
  show "dim_x (datasets s3 ! gd) = dim_x (datasets s ! gd)" by (rule p(3))
  show "coords (datasets s3 ! gd) = coords (cast_coords nc (datasets s ! gd))" by (rule p(4))
  show "\<forall>i<4. data_vars (datasets s3 ! gd) (ml_name i) \<noteq> None
               \<and> data_vars (datasets s3 ! gd) (ml_cname i) \<noteq> None"
    using p(5) by blast
  show "\<forall>n \<in> set [''crain'', ''csnow'', ''cicep'', ''cfrzr''].
            data_vars (datasets s3 ! gd) n =
              map_option (\<lambda>x. x\<lparr>dtype := UInt8, vals := map_values (to_uint8 nc) (vals x)\<rparr>)
                (data_vars (datasets s ! gd) n)"
    using p(6) by blast
  show "\<forall>n. (\<forall>i<4. n \<noteq> ml_name i \<and> n \<noteq> ml_cname i)
               \<and> n \<notin> set [''crain'', ''csnow'', ''cicep'', ''cfrzr'']
            \<longrightarrow> data_vars (datasets s3 ! gd) n = data_vars (datasets s ! gd) n"
    using p(7) by blast
qed

lemma example_preds_facts:
  "3 \<le> n_cols example_preds"
  "length (t_rows example_preds) = dim_y example_dataset * dim_x example_dataset"
  by (simp_all add: example_preds_def example_dataset_def)

lemma example_store_facts:
  "datasets example_store ! 0 = example_dataset"
  "datasets example_store ! Suc 0 = \<lparr>dim_y = 1, dim_x = 2, data_vars = Map.empty, coords = []\<rparr>"
  "length (datasets example_store) = 2"
  "frames example_store = [example_table]"
  "surfaces example_store = [example_surface]"
  "tables example_store = [example_preds]"
  "ndarrays example_store = [[[1, 2]]]"
  by (simp_all add: example_store_def)

text \<open>
  The claim as the specification states it fails for the Grid Reconstructor. On the example
  dataset, which has no variable \<^verbatim>\<open>ML_rain\<close> and holds \<^verbatim>\<open>crain\<close> as \<^verbatim>\<open>float64\<close>, the
  call succeeds, and afterwards the dataset that was passed in holds \<^verbatim>\<open>ML_rain\<close> with the
  first column of the table on the grid, and its \<^verbatim>\<open>crain\<close> is \<^verbatim>\<open>uint8\<close>.
\<close>

theorem grid_predictions_writes_its_dataset:
  "\<not> isl (grid_predictions_st exact_casts example_store 0 0)
   \<and> data_vars (datasets example_store ! 0) ''ML_rain'' = None
   \<and> map_option vals
        (data_vars (datasets (snd (projr (grid_predictions_st exact_casts example_store 0 0))) ! 0)
           ''ML_rain'')
       = Some (Grid2 [[0.5, 0, 0], [0, 1, 0.25]])
   \<and> map_option dtype (data_vars (datasets example_store ! 0) ''crain'') = Some Float64
   \<and> map_option dtype
        (data_vars (datasets (snd (projr (grid_predictions_st exact_casts example_store 0 0))) ! 0)
           ''crain'')
       = Some UInt8"
proof -
  obtain d' resh where
    g: "grid_predictions exact_casts example_dataset example_preds = Inr (d', drop_levels d')" and
    r: "reshape3 (dim_y example_dataset) (dim_x example_dataset) (n_cols example_preds + 1)
          (hstack_ptype (t_rows example_preds) (map np_argmax (t_rows example_preds))) = Inr resh" and
    v: "map_option vals (data_vars d' (ml_name 0))
          = Some (Grid2 (map (map (\<lambda>p. to_float32 exact_casts (p ! 0))) resh))"
    using grid_predictions_fields[OF example_preds_facts, of 0 exact_casts] by auto
  have st: "grid_predictions_st exact_casts example_store 0 0
              = Inr (2, example_store\<lparr>datasets := (datasets example_store)[0 := d']
                                          @ [drop_levels d']\<rparr>)"
    by (simp add: grid_predictions_st_def example_store_facts g)
  have d0: "datasets (snd (projr (grid_predictions_st exact_casts example_store 0 0))) ! 0 = d'"
    unfolding st by (simp add: example_store_def)
  have resh: "map (map (\<lambda>p. to_float32 exact_casts (p ! 0))) resh = [[0.5, 0, 0], [0, 1, 0.25]]"
    using r by (auto simp: reshape3_def hstack_ptype_def example_preds_def example_dataset_def
                  exact_casts_def upt_rec)
  have c: "data_vars d' ''crain'' =
             map_option (\<lambda>x. x\<lparr>dtype := UInt8, vals := map_values (to_uint8 exact_casts) (vals x)\<rparr>)
               (data_vars example_dataset ''crain'')"
    using grid_predictions_frame(6)[OF g, of "''crain''"] by simp
  have "\<not> isl (grid_predictions_st exact_casts example_store 0 0)" by (simp add: st)
  moreover have "data_vars (datasets example_store ! 0) ''ML_rain'' = None"
    by (simp add: example_store_facts example_dataset_def)
  moreover have "map_option vals (data_vars d' ''ML_rain'') = Some (Grid2 [[0.5, 0, 0], [0, 1, 0.25]])"
    using v resh by (simp add: ml_names)
  moreover have "map_option dtype (data_vars (datasets example_store ! 0) ''crain'') = Some Float64"
    by (simp add: example_store_facts example_dataset_def)
  moreover have "map_option dtype (data_vars d' ''crain'') = Some UInt8"
    by (simp add: c example_dataset_def)
  ultimately show ?thesis unfolding d0 by blast
qed

text \<open>
  The three calls on the example state. The flattener adds the frame of six rows; the
  interpolator keeps the array that was there and returns the interpolated table in a later
  one; the reconstructor keeps the second dataset and the variable \<^verbatim>\<open>t\<close> of the first, to
  which it adds \<^verbatim>\<open>ML_rain\<close> and in which it converts \<^verbatim>\<open>crain\<close>.
\<close>

theorem stages_write_fresh_objects_or_dataset_witness:
  "(\<exists>f s1. df_flatten_st example_store 0 [''t'', ''u''] = Inr (f, s1) \<and> f = 1
       \<and> s1 = example_store\<lparr>frames := [example_table, frames s1 ! 1]\<rparr>
       \<and> nrows (frames s1 ! 1) = 6)
   \<and> (\<exists>a s2. convert_and_interpolate_st example_store 0 0 [1000, 900]
                 \<lparr>low = 0, high = 1000, interval = 500\<rparr> = Inr (a, s2)
       \<and> datasets s2 = datasets example_store \<and> frames s2 = [example_table]
       \<and> surfaces s2 = [example_surface] \<and> tables s2 = [example_preds]
       \<and> take 1 (ndarrays s2) = [[[1, 2]]] \<and> 1 \<le> a
       \<and> ndarrays s2 ! a =
            [[11, 8, 11 / 2, 2, 3 / 5, 1 / 10, 0, 19 / 5, 24 / 5, 1, 39 / 5, 44 / 5],
             [21, 37 / 2, 16, 3, 17 / 10, 6 / 5, 0, 23 / 5, 28 / 5, 1, 43 / 5, 48 / 5]])
   \<and> (\<forall>nc. \<exists>g s3. grid_predictions_st nc example_store 0 0 = Inr (g, s3) \<and> g = 2
       \<and> s3 = example_store\<lparr>datasets :=
                 [datasets s3 ! 0, \<lparr>dim_y = 1, dim_x = 2, data_vars = Map.empty, coords = []\<rparr>,
                  datasets s3 ! 2]\<rparr>
       \<and> datasets s3 ! 2 = drop_levels (datasets s3 ! 0)
       \<and> data_vars (datasets s3 ! 0) ''t'' = data_vars example_dataset ''t''
       \<and> data_vars (datasets s3 ! 0) ''ML_rain'' \<noteq> None
       \<and> map_option dtype (data_vars (datasets s3 ! 0) ''crain'') = Some UInt8)"
proof (intro conjI allI)
  let ?df = "\<lparr>nrows = 6,
          columns = [(''t_1000'', [1, 2, 3, 4, 5, 6]), (''t_975'', [7, 8, 9, 10, 11, 12]),
                     (''u_1000'', [21, 22, 23, 24, 25, 26]), (''u_975'', [27, 28, 29, 30, 31, 32::real])]\<rparr>"
  let ?s1 = "example_store\<lparr>frames := frames example_store @ [?df]\<rparr>"
  have e: "df_flatten_st example_store 0 [''t'', ''u''] = Inr (1, ?s1)"
    by (simp add: df_flatten_st_def example_store_facts example_flatten)
  note t = stages_write_fresh_objects_or_dataset[THEN conjunct1, THEN mp, OF e]
  have "?s1 = example_store\<lparr>frames := [example_table, frames ?s1 ! 1]\<rparr>"
    by (simp add: example_store_facts)
  moreover have "nrows (frames ?s1 ! 1) = 6" by (simp add: example_store_facts)
  ultimately show "\<exists>f s1. df_flatten_st example_store 0 [''t'', ''u''] = Inr (f, s1) \<and> f = 1
       \<and> s1 = example_store\<lparr>frames := [example_table, frames s1 ! 1]\<rparr>
       \<and> nrows (frames s1 ! 1) = 6"
    using e t by blast
next
  let ?hc = "\<lparr>low = 0, high = 1000, interval = 500\<rparr>"
  let ?out = "[[11, 8, 11 / 2, 2, 3 / 5, 1 / 10, 0, 19 / 5, 24 / 5, 1, 39 / 5, 44 / 5],
        [21, 37 / 2, 16, 3, 17 / 10, 6 / 5, 0, 23 / 5, 28 / 5, 1, 43 / 5, 48 / 5::real]]"
  have "map_sum id (\<lambda>(a, s'). ndarrays s' ! a)
          (convert_and_interpolate_st example_store 0 0 [1000, 900] ?hc) = Inr ?out"
    using convert_and_interpolate_st_value[of example_store 0 0 "[1000, 900]" ?hc]
    by (simp only: example_store_facts nth_Cons_0 example_run)
  then obtain a s2 where
    c: "convert_and_interpolate_st example_store 0 0 [1000, 900] ?hc = Inr (a, s2)"
    by (cases "convert_and_interpolate_st example_store 0 0 [1000, 900] ?hc") auto
  note t = stages_write_fresh_objects_or_dataset[THEN conjunct2, THEN conjunct1, THEN mp, OF c]
  have "ndarrays s2 ! a = ?out"
    using t by (simp add: example_store_facts example_run)
  moreover have "take 1 (ndarrays s2) = [[[1, 2]]]" "1 \<le> a"
    using t by (simp_all add: example_store_facts)
  moreover have "datasets s2 = datasets example_store" "frames s2 = [example_table]"
       "surfaces s2 = [example_surface]" "tables s2 = [example_preds]"
    using t by (simp_all add: example_store_facts)
  ultimately show "\<exists>a s2. convert_and_interpolate_st example_store 0 0 [1000, 900] ?hc = Inr (a, s2)
       \<and> datasets s2 = datasets example_store \<and> frames s2 = [example_table]
       \<and> surfaces s2 = [example_surface] \<and> tables s2 = [example_preds]
       \<and> take 1 (ndarrays s2) = [[[1, 2]]] \<and> 1 \<le> a
       \<and> ndarrays s2 ! a = ?out"
    using c by blast
next
  fix nc
  let ?d2 = "\<lparr>dim_y = 1, dim_x = 2, data_vars = Map.empty, coords = []\<rparr> :: dataset"
  obtain d' where
    g: "grid_predictions nc example_dataset example_preds = Inr (d', drop_levels d')"
    using grid_predictions_total[OF example_preds_facts, of nc] by blast
  let ?s3 = "example_store\<lparr>datasets := (datasets example_store)[0 := d'] @ [drop_levels d']\<rparr>"
  have st: "grid_predictions_st nc example_store 0 0 = Inr (2, ?s3)"
    by (simp add: grid_predictions_st_def example_store_facts g)
  have lt: "0 < length (datasets example_store)" by (simp add: example_store_facts)
  note t = stages_write_fresh_objects_or_dataset[THEN conjunct2, THEN conjunct2, THEN mp,
             OF conjI[OF lt st]]
  have ds: "datasets ?s3 = [d', ?d2, drop_levels d']" by (simp add: example_store_def)
  have n: "\<forall>i<4. ''t'' \<noteq> ml_name i \<and> ''t'' \<noteq> ml_cname i"
  proof (intro allI impI)
    fix i :: nat assume "i < 4"
    from less4_cases[OF this] show "''t'' \<noteq> ml_name i \<and> ''t'' \<noteq> ml_cname i"
      by (auto simp: ml_names)
  qed
  have "?s3 = example_store\<lparr>datasets := [datasets ?s3 ! 0, ?d2, datasets ?s3 ! 2]\<rparr>"
    by (simp add: example_store_def)
  moreover have "datasets ?s3 ! 2 = drop_levels (datasets ?s3 ! 0)" using t by blast
  moreover have "data_vars (datasets ?s3 ! 0) ''t'' = data_vars example_dataset ''t''"
  proof -
    from t have "\<forall>n. (\<forall>i<4. n \<noteq> ml_name i \<and> n \<noteq> ml_cname i)
               \<and> n \<notin> set [''crain'', ''csnow'', ''cicep'', ''cfrzr'']
            \<longrightarrow> data_vars (datasets ?s3 ! 0) n = data_vars (datasets example_store ! 0) n"
      by blast
    with n show ?thesis by (simp add: example_store_facts)
  qed
  moreover have "data_vars (datasets ?s3 ! 0) ''ML_rain'' \<noteq> None"
  proof -
    from t have "\<forall>i<4. data_vars (datasets ?s3 ! 0) (ml_name i) \<noteq> None
               \<and> data_vars (datasets ?s3 ! 0) (ml_cname i) \<noteq> None" by blast
    then have "data_vars (datasets ?s3 ! 0) (ml_name 0) \<noteq> None" by simp
    then show ?thesis by (simp add: ml_names)
  qed
  moreover have "map_option dtype (data_vars (datasets ?s3 ! 0) ''crain'') = Some UInt8"
  proof -
    from t have "\<forall>n \<in> set [''crain'', ''csnow'', ''cicep'', ''cfrzr''].
            data_vars (datasets ?s3 ! 0) n =
              map_option (\<lambda>x. x\<lparr>dtype := UInt8, vals := map_values (to_uint8 nc) (vals x)\<rparr>)
                (data_vars (datasets example_store ! 0) n)" by blast
    then have "data_vars (datasets ?s3 ! 0) ''crain'' =
              map_option (\<lambda>x. x\<lparr>dtype := UInt8, vals := map_values (to_uint8 nc) (vals x)\<rparr>)
                (data_vars (datasets example_store ! 0) ''crain'')" by simp
    then show ?thesis by (simp add: example_store_facts example_dataset_def)
  qed
  ultimately show "\<exists>g s3. grid_predictions_st nc example_store 0 0 = Inr (g, s3) \<and> g = 2
       \<and> s3 = example_store\<lparr>datasets := [datasets s3 ! 0, ?d2, datasets s3 ! 2]\<rparr>
       \<and> datasets s3 ! 2 = drop_levels (datasets s3 ! 0)
       \<and> data_vars (datasets s3 ! 0) ''t'' = data_vars example_dataset ''t''
       \<and> data_vars (datasets s3 ! 0) ''ML_rain'' \<noteq> None
       \<and> map_option dtype (data_vars (datasets s3 ! 0) ''crain'') = Some UInt8"
    using st by blast
qed

end
